theory Spec2Isabelle
  imports Main "HOL-Library.Word" "HOL-Library.Signed_Division" "HOL-Library.Monad_Syntax"
begin

unbundle bit_operations_syntax

section \<open>Bytes and little-endian integers\<close>

text \<open>
  A buffer is a list of bytes; a C pointer into it is an offset from its start.
  The host is little-endian, so \<open>GUINT16_FROM_LE\<close> and friends are the identity
  on the value read with \<open>memcpy\<close>.
\<close>

type_synonym byte = "8 word"

text \<open>The value of a run of bytes read as one little-endian integer.\<close>

fun le_word :: "byte list \<Rightarrow> 'a::len word" where
  "le_word [] = 0"
| "le_word (b # bs) = ucast b OR push_bit 8 (le_word bs)"

text \<open>\<open>memcpy(&v, buf + off, n)\<close> into a zeroed integer of at least \<open>n\<close> bytes.\<close>

definition rd_le :: "byte list \<Rightarrow> nat \<Rightarrow> nat \<Rightarrow> 'a::len word" where
  "rd_le buf off n = le_word (take n (drop off buf))"

section \<open>RAR variable-length integers\<close>

text \<open>
  \<open>rspamd_archive_rar_read_vint\<close>. The loop state is the bytes from \<open>p\<close> on (their
  number is \<open>remain\<close>), \<open>shift\<close>, the accumulator \<open>t\<close> and \<open>p - start\<close>; the loop
  returns (\<open>remain\<close>, \<open>shift\<close>, \<open>t\<close>, \<open>p - start\<close>) as they are when it is left.
  A byte without the continuation bit leaves the loop by \<open>break\<close>, before
  \<open>remain\<close> is decremented.
\<close>

fun rar_vint_loop :: "byte list \<Rightarrow> nat \<Rightarrow> 64 word \<Rightarrow> nat \<Rightarrow> nat \<times> nat \<times> 64 word \<times> nat" where
  "rar_vint_loop [] shift t n = (0, shift, t, n)"
| "rar_vint_loop (b # bs) shift t n =
     (if shift \<le> 57 then
        (if b AND 0x80 \<noteq> 0
         then rar_vint_loop bs (shift + 7) (t OR push_bit shift (ucast (b AND 0x7f))) (n + 1)
         else (length (b # bs), shift, t OR push_bit shift (ucast (b AND 0x7f)), n + 1))
      else (length (b # bs), shift, t, n))"

text \<open>The result is \<open>None\<close> for the C return value -1, else the value and \<open>p - start\<close>.\<close>

definition rspamd_archive_rar_read_vint :: "byte list \<Rightarrow> (64 word \<times> nat) option" where
  "rspamd_archive_rar_read_vint buf =
     (case rar_vint_loop buf 0 0 0 of
        (remain, shift, t, n) \<Rightarrow> if remain = 0 \<or> shift > 64 then None else Some (t, n))"

section \<open>7-Zip variable-length integers\<close>

text \<open>
  \<open>rspamd_archive_7zip_read_vint\<close>. Two things the C text leaves open are parameters:
  \<open>junk\<close> is the content of the uninitialised local \<open>tgt\<close>, of which \<open>memcpy\<close>
  overwrites the low \<open>intlen\<close> bytes only, and \<open>wide_shr\<close> is what the machine makes
  of a right shift by 64 or more: the amount \<open>sizeof(tgt) - NBBY * intlen\<close> is computed
  in \<open>size_t\<close> and wraps around for every \<open>intlen\<close> above 1.
\<close>

definition sz_shift_amount :: "nat \<Rightarrow> nat" where
  "sz_shift_amount intlen = unat ((8 :: 64 word) - word_of_nat (8 * intlen))"

definition sz_shr :: "(64 word \<Rightarrow> nat \<Rightarrow> 64 word) \<Rightarrow> 64 word \<Rightarrow> nat \<Rightarrow> 64 word" where
  "sz_shr wide_shr x n = (if n < 64 then drop_bit n x else wide_shr x n)"

definition sz_vint_value ::
  "64 word \<Rightarrow> (64 word \<Rightarrow> nat \<Rightarrow> 64 word) \<Rightarrow> byte \<Rightarrow> byte list \<Rightarrow> nat \<Rightarrow> nat \<Rightarrow> 64 word" where
  "sz_vint_value junk wide_shr t buf cur_bit intlen =
     (let tgt = (junk AND NOT (mask (8 * intlen))) OR rd_le buf 1 intlen;
          tgt = sz_shr wide_shr tgt (sz_shift_amount intlen)
      in tgt + push_bit (8 * intlen) (ucast (t AND drop_bit (8 - cur_bit) (0xFF :: byte))))"

text \<open>The \<open>while (cur_bit > 0)\<close> loop.\<close>

fun sz_vint_loop ::
  "64 word \<Rightarrow> (64 word \<Rightarrow> nat \<Rightarrow> 64 word) \<Rightarrow> byte \<Rightarrow> byte list \<Rightarrow> nat \<Rightarrow> nat \<Rightarrow> (64 word \<times> nat) option" where
  "sz_vint_loop junk wide_shr t buf cur_bit intlen =
     (if cur_bit > 0 then
        (if \<not> bit t cur_bit \<and> length buf \<ge> intlen + 1
         then Some (sz_vint_value junk wide_shr t buf cur_bit intlen, intlen + 1)
         else sz_vint_loop junk wide_shr t buf (cur_bit - 1) (intlen + 1))
      else None)"

declare sz_vint_loop.simps [simp del]

definition rspamd_archive_7zip_read_vint ::
  "64 word \<Rightarrow> (64 word \<Rightarrow> nat \<Rightarrow> 64 word) \<Rightarrow> byte list \<Rightarrow> (64 word \<times> nat) option" where
  "rspamd_archive_7zip_read_vint junk wide_shr buf =
     (case buf of
        [] \<Rightarrow> None
      | t # _ \<Rightarrow>
          if \<not> bit t 7 then Some (ucast t, 1)
          else if t = 0xFF then
            (if length buf \<ge> 9 then Some (rd_le buf 1 8, 9) else None)
          else sz_vint_loop junk wide_shr t buf 6 1)"

section \<open>The ZIP writer\<close>

subsection \<open>Entry names\<close>

text \<open>
  A C string is the list of its characters before the terminating NUL; a \<open>const char *\<close>
  that may be \<open>NULL\<close> is a \<open>string option\<close>. \<open>strstr\<close> and \<open>strchr\<close> give the offset of
  the first match, \<open>None\<close> for \<open>NULL\<close>.
\<close>

fun strstr :: "string \<Rightarrow> string \<Rightarrow> nat option" where
  "strstr [] needle = (if needle = [] then Some 0 else None)"
| "strstr (c # cs) needle =
     (if take (length needle) (c # cs) = needle then Some 0
      else map_option Suc (strstr cs needle))"

fun strchr :: "string \<Rightarrow> char \<Rightarrow> nat option" where
  "strchr [] ch = None"
| "strchr (c # cs) ch = (if c = ch then Some 0 else map_option Suc (strchr cs ch))"

definition rspamd_zip_validate_name :: "string option \<Rightarrow> bool" where
  "rspamd_zip_validate_name name =
     (case name of
        None \<Rightarrow> False
      | Some s \<Rightarrow>
          if s = [] then False
          else if hd s = CHR ''/'' \<or> hd s = CHR 0x5C then False
          else if strstr s ''..'' \<noteq> None then False
          else if strchr s CHR '':'' \<noteq> None then False
          else True)"

subsection \<open>Collaborators of the writer\<close>

text \<open>
  The clock, zlib and the crypto library are parameters of the writer. Each call that
  can fail in the C text can fail here.
\<close>

record tm =
  tm_sec :: int
  tm_min :: int
  tm_hour :: int
  tm_mday :: int
  tm_mon :: int
  tm_year :: int

datatype zlib_failure = DeflateInit | DeflateStream

record zip_env =
  time_now :: int
  localtime_r :: "int \<Rightarrow> tm"
  crc32 :: "byte list \<Rightarrow> 32 word"
  deflate_raw :: "byte list \<Rightarrow> zlib_failure + byte list"
  rand_bytes :: "nat \<Rightarrow> nat \<Rightarrow> byte list option"
  pbkdf2_hmac_sha1 :: "string \<Rightarrow> byte list \<Rightarrow> nat \<Rightarrow> nat \<Rightarrow> byte list option"
  aes_ctr_init :: "byte list \<Rightarrow> byte list \<Rightarrow> bool"
  aes_ctr_encrypt :: "byte list \<Rightarrow> byte list \<Rightarrow> byte list \<Rightarrow> byte list option"
  hmac_sha1 :: "byte list \<Rightarrow> byte list \<Rightarrow> byte list"

text \<open>
  \<open>deflate_raw env d\<close> is the output zlib produces for \<open>d\<close> in a buffer of
  \<open>deflateBound\<close> bytes; \<open>rand_bytes env i n\<close> is the \<open>n\<close> bytes \<open>RAND_bytes\<close> hands out
  on the \<open>i\<close>-th entry; \<open>aes_ctr_encrypt env key iv d\<close> is the \<open>outl + finl\<close> bytes that
  \<open>EVP_EncryptUpdate\<close> and \<open>EVP_EncryptFinal_ex\<close> leave in place of \<open>d\<close>.
\<close>

datatype zip_error =
  NoFiles | InvalidName | RngFailed | Pbkdf2Failed | AesInitFailed
  | DeflateInitFailed | DeflateFailed | AesEncryptFailed

record zip_file_spec =
  name :: "string option"
  data :: "byte list"
  mtime :: int
  mode :: "32 word"

subsection \<open>Headers\<close>

definition byte_of_char :: "char \<Rightarrow> byte" where
  "byte_of_char c = of_char c"

definition rspamd_zip_time_dos :: "zip_env \<Rightarrow> int \<Rightarrow> 16 word" where
  "rspamd_zip_time_dos env t =
     (let t = (if t = 0 then time_now env else t);
          lt = localtime_r env t
      in push_bit 11 (word_of_int (tm_hour lt AND 0x1f))
         OR push_bit 5 (word_of_int (tm_min lt AND 0x3f))
         OR word_of_int ((tm_sec lt sdiv 2) AND 0x1f))"

definition rspamd_zip_date_dos :: "zip_env \<Rightarrow> int \<Rightarrow> 16 word" where
  "rspamd_zip_date_dos env t =
     (let t = (if t = 0 then time_now env else t);
          lt = localtime_r env t;
          year = tm_year lt + 1900;
          year = (if year < 1980 then 1980 else year)
      in push_bit 9 (word_of_int ((year - 1980) AND 0x7f))
         OR push_bit 5 (word_of_int ((tm_mon lt + 1) AND 0x0f))
         OR word_of_int (tm_mday lt AND 0x1f))"

definition rspamd_ba_append_u16le :: "byte list \<Rightarrow> 16 word \<Rightarrow> byte list" where
  "rspamd_ba_append_u16le ba v = ba @ [ucast v, ucast (drop_bit 8 v)]"

definition rspamd_ba_append_u32le :: "byte list \<Rightarrow> 32 word \<Rightarrow> byte list" where
  "rspamd_ba_append_u32le ba v =
     ba @ [ucast v, ucast (drop_bit 8 v), ucast (drop_bit 16 v), ucast (drop_bit 24 v)]"

definition rspamd_zip_write_local_header ::
  "zip_env \<Rightarrow> byte list \<Rightarrow> string \<Rightarrow> 16 word \<Rightarrow> 16 word \<Rightarrow> 16 word \<Rightarrow> int \<Rightarrow> 32 word \<Rightarrow> 32 word
     \<Rightarrow> 32 word \<Rightarrow> 16 word \<Rightarrow> byte list" where
  "rspamd_zip_write_local_header env zbuf nm ver_needed gp_flags method mt crc csize usize extra_len =
     (let zbuf = rspamd_ba_append_u32le zbuf 0x04034b50;
          zbuf = rspamd_ba_append_u16le zbuf ver_needed;
          zbuf = rspamd_ba_append_u16le zbuf gp_flags;
          zbuf = rspamd_ba_append_u16le zbuf method;
          zbuf = rspamd_ba_append_u16le zbuf (rspamd_zip_time_dos env mt);
          zbuf = rspamd_ba_append_u16le zbuf (rspamd_zip_date_dos env mt);
          zbuf = rspamd_ba_append_u32le zbuf crc;
          zbuf = rspamd_ba_append_u32le zbuf csize;
          zbuf = rspamd_ba_append_u32le zbuf usize;
          zbuf = rspamd_ba_append_u16le zbuf (word_of_nat (length nm));
          zbuf = rspamd_ba_append_u16le zbuf extra_len
      in zbuf @ map byte_of_char nm)"

text \<open>The default mode \<open>0644\<close> is octal: \<open>0x1A4\<close>.\<close>

definition rspamd_zip_write_central_header ::
  "zip_env \<Rightarrow> byte list \<Rightarrow> string \<Rightarrow> 16 word \<Rightarrow> 16 word \<Rightarrow> 16 word \<Rightarrow> int \<Rightarrow> 32 word \<Rightarrow> 32 word
     \<Rightarrow> 32 word \<Rightarrow> 32 word \<Rightarrow> 32 word \<Rightarrow> 16 word \<Rightarrow> byte list" where
  "rspamd_zip_write_central_header env cd nm ver_needed gp_flags method mt crc csize usize
       lfh_offset md extra_len =
     (let cd = rspamd_ba_append_u32le cd 0x02014b50;
          cd = rspamd_ba_append_u16le cd (push_bit 8 3 OR 20);
          cd = rspamd_ba_append_u16le cd ver_needed;
          cd = rspamd_ba_append_u16le cd gp_flags;
          cd = rspamd_ba_append_u16le cd method;
          cd = rspamd_ba_append_u16le cd (rspamd_zip_time_dos env mt);
          cd = rspamd_ba_append_u16le cd (rspamd_zip_date_dos env mt);
          cd = rspamd_ba_append_u32le cd crc;
          cd = rspamd_ba_append_u32le cd csize;
          cd = rspamd_ba_append_u32le cd usize;
          cd = rspamd_ba_append_u16le cd (word_of_nat (length nm));
          cd = rspamd_ba_append_u16le cd extra_len;
          cd = rspamd_ba_append_u16le cd 0;
          cd = rspamd_ba_append_u16le cd 0;
          cd = rspamd_ba_append_u16le cd 0;
          xattr = (if md \<noteq> 0 then md else 0x1A4);
          xattr = push_bit 16 (xattr AND 0xFFFF);
          cd = rspamd_ba_append_u32le cd xattr;
          cd = rspamd_ba_append_u32le cd lfh_offset
      in cd @ map byte_of_char nm)"

definition ZIP_AES_EXTRA_ID :: "16 word" where
  "ZIP_AES_EXTRA_ID = 0x9901"

definition rspamd_zip_write_extra_aes :: "byte list \<Rightarrow> 16 word \<Rightarrow> byte \<Rightarrow> 16 word \<Rightarrow> byte list" where
  "rspamd_zip_write_extra_aes ba vendor_version strength actual_method =
     (let ba = rspamd_ba_append_u16le ba ZIP_AES_EXTRA_ID;
          ba = rspamd_ba_append_u16le ba 7;
          ba = rspamd_ba_append_u16le ba vendor_version;
          ba = ba @ [byte_of_char CHR ''A'', byte_of_char CHR ''E''];
          ba = ba @ [strength]
      in rspamd_ba_append_u16le ba actual_method)"

text \<open>
  A store through a pointer into the array: \<open>memcpy(buf + off, bs, length bs)\<close>. Every
  such store of the writer lies inside the header it has just appended.
\<close>

definition patch_bytes :: "byte list \<Rightarrow> nat \<Rightarrow> byte list \<Rightarrow> byte list" where
  "patch_bytes buf off bs = take off buf @ bs @ drop (off + length bs) buf"

definition u16le :: "16 word \<Rightarrow> byte list" where
  "u16le v = rspamd_ba_append_u16le [] v"

definition u32le :: "32 word \<Rightarrow> byte list" where
  "u32le v = rspamd_ba_append_u32le [] v"

subsection \<open>One entry\<close>

definition zlib_error :: "zlib_failure \<Rightarrow> zip_error" where
  "zlib_error e = (case e of DeflateInit \<Rightarrow> DeflateInitFailed | DeflateStream \<Rightarrow> DeflateFailed)"

text \<open>
  The \<open>else\<close> branch of \<open>if (use_aes)\<close> in the loop of \<open>rspamd_archives_zip_write\<close>,
  with the local header before it and the central header after it. \<open>lfh_off\<close> is a
  \<open>guint32\<close>, as are the sizes written to the headers.
\<close>

definition zip_write_entry_plain ::
  "zip_env \<Rightarrow> byte list \<Rightarrow> byte list \<Rightarrow> zip_file_spec \<Rightarrow> string \<Rightarrow> zip_error + byte list \<times> byte list" where
  "zip_write_entry_plain env zbuf cd f nm =
     (let crc = crc32 env (data f);
          method = (8 :: 16 word);
          gp_flags = (push_bit 11 1 :: 16 word);
          ver_needed = (20 :: 16 word);
          extra_len = (0 :: 16 word);
          lfh_off = (word_of_nat (length zbuf) :: 32 word);
          zbuf = rspamd_zip_write_local_header env zbuf nm ver_needed gp_flags method (mtime f)
                   crc 0 (word_of_nat (length (data f))) extra_len
      in (case deflate_raw env (data f) of
            Inl e \<Rightarrow> Inl (zlib_error e)
          | Inr out \<Rightarrow>
             (let stored = (length out \<ge> length (data f));
                  produced = (if stored then length (data f) else length out);
                  method = (if stored then 0 else method);
                  zbuf = (if stored
                          then patch_bytes (zbuf @ data f) (unat lfh_off + 8) (u16le method)
                          else zbuf @ out);
                  csize_for_header = (word_of_nat produced :: 32 word);
                  zbuf = patch_bytes zbuf (unat lfh_off + 14) (u32le crc);
                  zbuf = patch_bytes zbuf (unat lfh_off + 18) (u32le csize_for_header);
                  cd = rspamd_zip_write_central_header env cd nm ver_needed gp_flags method
                         (mtime f) crc csize_for_header (word_of_nat (length (data f)))
                         lfh_off (mode f) extra_len
              in Inr (zbuf, cd))))"

text \<open>
  The branch \<open>if (use_aes)\<close>, built with OpenSSL, in three steps: the headers and the
  key material, the payload, and the stores into the local header with the central
  record. \<open>i\<close> counts the entries, for the random salt.
\<close>

definition zip_aes_finish ::
  "zip_env \<Rightarrow> byte list \<Rightarrow> byte list \<Rightarrow> zip_file_spec \<Rightarrow> string \<Rightarrow> 32 word \<Rightarrow> nat \<Rightarrow> byte list
     \<Rightarrow> byte list \<Rightarrow> 16 word \<Rightarrow> byte list \<times> byte list" where
  "zip_aes_finish env zbuf cd f nm lfh_off plain_off akey ct actual_method =
     (let salt_len = (16 :: nat);
          zbuf = take plain_off zbuf @ ct;
          mac = hmac_sha1 env akey (drop plain_off zbuf);
          zbuf = zbuf @ take 10 mac;
          csize_for_header = (word_of_nat (salt_len + 2 + length ct + 10) :: 32 word);
          zbuf = patch_bytes zbuf (unat lfh_off + 18) (u32le csize_for_header);
          zbuf = patch_bytes zbuf
                   (unat lfh_off + 30 + unat (word_of_nat (length nm) :: 32 word) + 9)
                   (u16le actual_method);
          cd = rspamd_zip_write_central_header env cd nm (max 20 51) (push_bit 11 1 OR 1) 99
                 (mtime f) 0 csize_for_header (word_of_nat (length (data f))) lfh_off (mode f)
                 (2 + 2 + 7);
          cd = rspamd_zip_write_extra_aes cd 0x0002 0x03 actual_method
      in (zbuf, cd))"

definition zip_aes_payload ::
  "zip_env \<Rightarrow> byte list \<Rightarrow> byte list \<Rightarrow> zip_file_spec \<Rightarrow> string \<Rightarrow> 32 word \<Rightarrow> byte list
     \<Rightarrow> byte list \<Rightarrow> zip_error + byte list \<times> byte list" where
  "zip_aes_payload env zbuf cd f nm lfh_off ekey akey =
     (let iv = replicate 16 (0 :: byte)
      in if \<not> aes_ctr_init env ekey iv then Inl AesInitFailed
         else (case deflate_raw env (data f) of
                 Inl e \<Rightarrow> Inl (zlib_error e)
               | Inr out \<Rightarrow>
                  (let plain_off = length zbuf;
                       stored = (length out \<ge> length (data f));
                       plain = (if stored then data f else out);
                       actual_method = (if stored then 0 else 8)
                   in (case aes_ctr_encrypt env ekey iv plain of
                         None \<Rightarrow> Inl AesEncryptFailed
                       | Some ct \<Rightarrow>
                           Inr (zip_aes_finish env (zbuf @ plain) cd f nm lfh_off plain_off
                                  akey ct actual_method)))))"

definition zip_write_entry_aes ::
  "zip_env \<Rightarrow> string \<Rightarrow> nat \<Rightarrow> byte list \<Rightarrow> byte list \<Rightarrow> zip_file_spec \<Rightarrow> string
     \<Rightarrow> zip_error + byte list \<times> byte list" where
  "zip_write_entry_aes env password i zbuf cd f nm =
     (let actual_method = (8 :: 16 word);
          aes_strength = (0x03 :: byte);
          aes_vendor_ver = (0x0002 :: 16 word);
          ver_needed = max (20 :: 16 word) 51;
          gp_flags = (push_bit 11 1 :: 16 word) OR 1;
          method = (99 :: 16 word);
          extra_len = (2 + 2 + 7 :: 16 word);
          salt_len = (16 :: nat);
          crc = (0 :: 32 word);
          lfh_off = (word_of_nat (length zbuf) :: 32 word);
          zbuf = rspamd_zip_write_local_header env zbuf nm ver_needed gp_flags method (mtime f)
                   crc 0 (word_of_nat (length (data f))) extra_len;
          zbuf = rspamd_zip_write_extra_aes zbuf aes_vendor_ver aes_strength actual_method
      in (case rand_bytes env i salt_len of
            None \<Rightarrow> Inl RngFailed
          | Some rnd \<Rightarrow>
             (let salt = take salt_len rnd;
                  klen = (32 :: nat);
                  dklen = klen * 2 + 2
              in (case pbkdf2_hmac_sha1 env password salt 1000 dklen of
                    None \<Rightarrow> Inl Pbkdf2Failed
                  | Some dk \<Rightarrow>
                     (let ekey = take klen dk;
                          akey = take klen (drop klen dk);
                          pv = take 2 (drop (klen * 2) dk)
                      in zip_aes_payload env (zbuf @ salt @ pv) cd f nm lfh_off ekey akey)))))"

text \<open>The body of the loop over the files: the name is validated first.\<close>

definition zip_write_entry ::
  "zip_env \<Rightarrow> string option \<Rightarrow> nat \<Rightarrow> byte list \<times> byte list \<Rightarrow> zip_file_spec
     \<Rightarrow> zip_error + byte list \<times> byte list" where
  "zip_write_entry env password i st f =
     (if \<not> rspamd_zip_validate_name (name f) then Inl InvalidName
      else case name f of
        None \<Rightarrow> Inl InvalidName
      | Some nm \<Rightarrow>
          (case password of
             None \<Rightarrow> zip_write_entry_plain env (fst st) (snd st) f nm
           | Some pw \<Rightarrow>
               if pw \<noteq> [] then zip_write_entry_aes env pw i (fst st) (snd st) f nm
               else zip_write_entry_plain env (fst st) (snd st) f nm))"

fun zip_write_files ::
  "zip_env \<Rightarrow> string option \<Rightarrow> nat \<Rightarrow> zip_file_spec list \<Rightarrow> byte list \<times> byte list
     \<Rightarrow> zip_error + byte list \<times> byte list" where
  "zip_write_files env password i [] st = Inr st"
| "zip_write_files env password i (f # fs) st =
     (case zip_write_entry env password i st f of
        Inl e \<Rightarrow> Inl e
      | Inr st' \<Rightarrow> zip_write_files env password (Suc i) fs st')"

subsection \<open>The archive\<close>

definition rspamd_archives_zip_write ::
  "zip_env \<Rightarrow> zip_file_spec list \<Rightarrow> string option \<Rightarrow> zip_error + byte list" where
  "rspamd_archives_zip_write env files password =
     (if files = [] then Inl NoFiles
      else case zip_write_files env password 0 files ([], []) of
        Inl e \<Rightarrow> Inl e
      | Inr (zbuf, cd) \<Rightarrow>
          let cd_start = (word_of_nat (length zbuf) :: 32 word);
              zbuf = zbuf @ cd;
              cd_size = (word_of_nat (length cd) :: 32 word);
              zbuf = rspamd_ba_append_u32le zbuf 0x06054b50;
              zbuf = rspamd_ba_append_u16le zbuf 0;
              zbuf = rspamd_ba_append_u16le zbuf 0;
              zbuf = rspamd_ba_append_u16le zbuf (word_of_nat (length files));
              zbuf = rspamd_ba_append_u16le zbuf (word_of_nat (length files));
              zbuf = rspamd_ba_append_u32le zbuf cd_size;
              zbuf = rspamd_ba_append_u32le zbuf cd_start;
              zbuf = rspamd_ba_append_u16le zbuf 0
          in Inr zbuf)"

subsection \<open>When the collaborators do not fail\<close>

definition zip_env_reliable :: "zip_env \<Rightarrow> bool" where
  "zip_env_reliable env \<longleftrightarrow>
     (\<forall>d. \<exists>out. deflate_raw env d = Inr out)
     \<and> (\<forall>i n. rand_bytes env i n \<noteq> None)
     \<and> (\<forall>pw s it n. pbkdf2_hmac_sha1 env pw s it n \<noteq> None)
     \<and> (\<forall>k iv. aes_ctr_init env k iv)
     \<and> (\<forall>k iv d. aes_ctr_encrypt env k iv d \<noteq> None)"

text \<open>
  A toy set of collaborators for concrete runs: a fixed clock, a checksum that is
  always 0, a compressor that drops every second byte, and a cipher that flips every bit.
\<close>

fun toy_deflate :: "byte list \<Rightarrow> byte list" where
  "toy_deflate (a # b # bs) = a # toy_deflate bs"
| "toy_deflate bs = bs"

definition toy_env :: zip_env where
  "toy_env = \<lparr>
     time_now = 1700000000,
     localtime_r = (\<lambda>t. \<lparr>tm_sec = 30, tm_min = 15, tm_hour = 12, tm_mday = 14, tm_mon = 10,
                          tm_year = 123\<rparr>),
     crc32 = (\<lambda>d. 0),
     deflate_raw = (\<lambda>d. Inr (toy_deflate d)),
     rand_bytes = (\<lambda>i n. Some (replicate n (word_of_nat i))),
     pbkdf2_hmac_sha1 = (\<lambda>pw salt iters n. Some (replicate n 0x5A)),
     aes_ctr_init = (\<lambda>key iv. True),
     aes_ctr_encrypt = (\<lambda>key iv d. Some (map (\<lambda>b. NOT b) d)),
     hmac_sha1 = (\<lambda>key d. replicate 20 0xA5)\<rparr>"

definition spec_a_txt :: zip_file_spec where
  "spec_a_txt = \<lparr>name = Some ''a.txt'', data = [0x68, 0x65, 0x6C, 0x6C, 0x6F], mtime = 0, mode = 0\<rparr>"

definition spec_b_bin :: zip_file_spec where
  "spec_b_bin = \<lparr>name = Some ''b.bin'', data = [0x00, 0x01, 0x02], mtime = 1, mode = 0x1ED\<rparr>"

definition spec_c_raw :: zip_file_spec where
  "spec_c_raw = \<lparr>name = Some ''c'', data = [0x7A], mtime = 2, mode = 0\<rparr>"

text \<open>An entry without data whose name has 65536 characters.\<close>

definition long_name :: string where
  "long_name = replicate 65536 CHR ''a''"

definition spec_long_name :: zip_file_spec where
  "spec_long_name = \<lparr>name = Some long_name, data = [], mtime = 0, mode = 0\<rparr>"

definition spec_traversal :: zip_file_spec where
  "spec_traversal = \<lparr>name = Some ''../etc/passwd'', data = [0x78], mtime = 0, mode = 0\<rparr>"

section \<open>Archives and the file name normaliser\<close>

record archive_file =
  fname :: "byte list option"
  compressed_size :: "64 word"
  uncompressed_size :: "64 word"
  file_encrypted :: bool
  file_obfuscated :: bool

datatype archive_type =
  RSPAMD_ARCHIVE_ZIP | RSPAMD_ARCHIVE_RAR | RSPAMD_ARCHIVE_7ZIP | RSPAMD_ARCHIVE_GZIP

record archive =
  arch_type :: archive_type
  archive_name :: "byte list option"
  files :: "archive_file list"
  arch_encrypted :: bool
  arch_has_obfuscated_files :: bool
  arch_size :: nat

datatype part_kind = RSPAMD_MIME_PART_UNDEFINED | RSPAMD_MIME_PART_ARCHIVE

text \<open>
  What the readers see and change of a \<open>struct rspamd_mime_part\<close>: \<open>cd_filename\<close> is
  \<open>None\<close> when \<open>part->cd\<close> is \<open>NULL\<close>.
\<close>

record mime_part =
  parsed_data :: "byte list"
  cd_filename :: "byte list option"
  part_type :: part_kind
  specific_arch :: "archive option"

text \<open>\<open>g_malloc0(sizeof(*f))\<close> and \<open>rspamd_mempool_alloc0\<close> followed by the first stores.\<close>

definition new_file :: archive_file where
  "new_file = \<lparr>fname = None, compressed_size = 0, uncompressed_size = 0,
     file_encrypted = False, file_obfuscated = False\<rparr>"

definition new_archive :: "archive_type \<Rightarrow> byte list option \<Rightarrow> archive" where
  "new_archive ty nm = \<lparr>arch_type = ty, archive_name = nm, files = [],
     arch_encrypted = False, arch_has_obfuscated_files = False, arch_size = 0\<rparr>"

text \<open>The two stores that publish an archive, with \<open>arch->size\<close>.\<close>

definition attach :: "mime_part \<Rightarrow> archive \<Rightarrow> mime_part" where
  "attach part arch = part\<lparr>part_type := RSPAMD_MIME_PART_ARCHIVE,
     specific_arch := Some (arch\<lparr>arch_size := length (parsed_data part)\<rparr>)\<rparr>"

text \<open>
  The charset detector, the ICU converters and the two character classes are
  collaborators of \<open>rspamd_archive_file_try_utf\<close>. What the machine holds behind the
  buffer is a parameter as well: \<open>bytes_behind i\<close> is the byte at the offset \<open>i\<close> when
  \<open>i\<close> is not below the length of the buffer.
\<close>

record charset_env =
  charset_find_by_content :: "byte list \<Rightarrow> string option"
  converter_available :: "string \<Rightarrow> bool"
  converter_to_uchars :: "string \<Rightarrow> byte list \<Rightarrow> 16 word list option"
  utf8_from_uchars :: "16 word list \<Rightarrow> byte list option"
  u_iscntrl :: "32 word \<Rightarrow> bool"
  is_zero_width_space :: "32 word \<Rightarrow> bool"
  bytes_behind :: "nat \<Rightarrow> byte"

text \<open>
  The \<open>n\<close> bytes at the offset \<open>p\<close>, for a read that the code does not keep inside
  the buffer.
\<close>

definition mem_read :: "charset_env \<Rightarrow> byte list \<Rightarrow> nat \<Rightarrow> nat \<Rightarrow> byte list" where
  "mem_read cenv buf p n =
     map (\<lambda>i. if i < length buf then buf ! i else bytes_behind cenv i) [p..<p + n]"

text \<open>ICU's \<open>U16_IS_LEAD\<close>, \<open>U16_IS_TRAIL\<close> and \<open>U16_GET_SUPPLEMENTARY\<close>.\<close>

definition u16_is_lead :: "16 word \<Rightarrow> bool" where
  "u16_is_lead c \<longleftrightarrow> c AND 0xFC00 = 0xD800"

definition u16_is_trail :: "16 word \<Rightarrow> bool" where
  "u16_is_trail c \<longleftrightarrow> c AND 0xFC00 = 0xDC00"

definition u16_get_supplementary :: "16 word \<Rightarrow> 16 word \<Rightarrow> 32 word" where
  "u16_get_supplementary lead trail =
     push_bit 10 (ucast lead) + ucast trail - (push_bit 10 0xD800 + 0xDC00 - 0x10000)"

text \<open>
  The scan \<open>while (i < r) { U16_NEXT(tmp, i, r, uc); ... break; }\<close>: is there a code
  point that is a zero-width space or a control character?
\<close>

fun uchars_suspicious :: "charset_env \<Rightarrow> 16 word list \<Rightarrow> bool" where
  "uchars_suspicious cenv [] = False"
| "uchars_suspicious cenv [c] =
     (is_zero_width_space cenv (ucast c) \<or> u_iscntrl cenv (ucast c))"
| "uchars_suspicious cenv (c # d # cs) =
     (if u16_is_lead c \<and> u16_is_trail d then
        (let uc = u16_get_supplementary c d
         in if is_zero_width_space cenv uc \<or> u_iscntrl cenv uc then True
            else uchars_suspicious cenv cs)
      else if is_zero_width_space cenv (ucast c) \<or> u_iscntrl cenv (ucast c) then True
      else uchars_suspicious cenv (d # cs))"

definition g_ascii_isgraph :: "byte \<Rightarrow> bool" where
  "g_ascii_isgraph b \<longleftrightarrow> 0x21 \<le> b \<and> b \<le> 0x7E"

definition g_ascii_iscntrl :: "byte \<Rightarrow> bool" where
  "g_ascii_iscntrl b \<longleftrightarrow> b < 0x20 \<or> b = 0x7F"

text \<open>
  The branch without a charset: \<open>*p < 0x7f\<close> compares a \<open>char\<close>, which is signed.
\<close>

definition unsafe_to_question :: "byte list \<Rightarrow> byte list" where
  "unsafe_to_question inp = map (\<lambda>b. if g_ascii_isgraph b then b else 0x3F) inp"

definition has_suspicious_byte :: "byte list \<Rightarrow> bool" where
  "has_suspicious_byte inp \<longleftrightarrow>
     (\<exists>b\<in>set inp. \<not> g_ascii_isgraph b \<and> sint b < 0x7f \<and> (g_ascii_iscntrl b \<or> b = 0))"

definition rspamd_archive_file_try_utf :: "charset_env \<Rightarrow> archive_file \<Rightarrow> byte list \<Rightarrow> archive_file" where
  "rspamd_archive_file_try_utf cenv fentry inp =
     (case charset_find_by_content cenv inp of
        Some charset \<Rightarrow>
          if \<not> converter_available cenv charset
          then fentry\<lparr>file_obfuscated := True, fname := Some inp\<rparr>
          else (case converter_to_uchars cenv charset inp of
                  None \<Rightarrow> fentry\<lparr>file_obfuscated := True, fname := Some inp\<rparr>
                | Some tmp \<Rightarrow>
                   (let fentry = (if uchars_suspicious cenv tmp
                                  then fentry\<lparr>file_obfuscated := True\<rparr> else fentry)
                    in (case utf8_from_uchars cenv tmp of
                          None \<Rightarrow> fentry\<lparr>file_obfuscated := True, fname := Some inp\<rparr>
                        | Some res \<Rightarrow> fentry\<lparr>fname := Some res\<rparr>)))
      | None \<Rightarrow>
          (let fentry = (if has_suspicious_byte inp
                         then fentry\<lparr>file_obfuscated := True\<rparr> else fentry)
           in fentry\<lparr>fname := Some (unsafe_to_question inp)\<rparr>))"

section \<open>The ZIP reader\<close>

text \<open>
  \<open>rspamd_archive_process_zip\<close>. Pointers are offsets from \<open>start\<close>; they are integers
  where the C text can move them below \<open>start\<close>. Pointer differences are 64 bits wide and
  signed, \<open>cd_offset + cd_size\<close> is a sum of two \<open>uint32_t\<close>. Each \<open>return\<close> that leaves
  the part as it was is named after its log line.
\<close>

datatype zip_reject =
  NoEocd | ShortEocd | BadCdExtent | BadCdRecord | TooLargeCdRecord | NoFileName

function zip_find_eocd :: "byte list \<Rightarrow> int \<Rightarrow> nat \<Rightarrow> int option" where
  "zip_find_eocd buf p processed =
     (if p > 4 then
        (if processed > 1024 then None
         else if (rd_le buf (nat p) 4 :: 32 word) = 0x06054b50 then Some p
         else zip_find_eocd buf (p - 1) (processed + 1))
      else None)"
  by pat_completeness auto
termination
  by (relation "measure (\<lambda>(buf, p, processed). nat p)") auto

declare zip_find_eocd.simps [simp del]

text \<open>The walk over the extra fields of one record; \<open>extra_end\<close> is \<open>extra + extra_len\<close>.\<close>

function zip_extra_walk :: "byte list \<Rightarrow> nat \<Rightarrow> nat \<Rightarrow> bool \<Rightarrow> bool" where
  "zip_extra_walk buf extra_end p enc =
     (if p + 4 < extra_end then
        (let hid = (rd_le buf p 2 :: 16 word);
             hlen = (rd_le buf (p + 2) 2 :: 16 word)
         in zip_extra_walk buf extra_end (p + (unat hlen + 4)) (enc \<or> hid = 0x0017))
      else enc)"
  by pat_completeness auto
termination
  by (relation "measure (\<lambda>(buf, extra_end, p, enc). extra_end - p)") auto

declare zip_extra_walk.simps [simp del]

text \<open>The fields of the central directory record at \<open>cd\<close>.\<close>

definition cd_flags :: "byte list \<Rightarrow> nat \<Rightarrow> 16 word" where
  "cd_flags buf cd = rd_le buf (cd + 8) 2"

definition cd_comp_size :: "byte list \<Rightarrow> nat \<Rightarrow> 32 word" where
  "cd_comp_size buf cd = rd_le buf (cd + 20) 4"

definition cd_uncomp_size :: "byte list \<Rightarrow> nat \<Rightarrow> 32 word" where
  "cd_uncomp_size buf cd = rd_le buf (cd + 24) 4"

definition cd_fname_len :: "byte list \<Rightarrow> nat \<Rightarrow> nat" where
  "cd_fname_len buf cd = unat (rd_le buf (cd + 28) 2 :: 16 word)"

definition cd_extra_len :: "byte list \<Rightarrow> nat \<Rightarrow> nat" where
  "cd_extra_len buf cd = unat (rd_le buf (cd + 30) 2 :: 16 word)"

definition cd_comment_len :: "byte list \<Rightarrow> nat \<Rightarrow> nat" where
  "cd_comment_len buf cd = unat (rd_le buf (cd + 32) 2 :: 16 word)"

definition cd_record_len :: "byte list \<Rightarrow> nat \<Rightarrow> nat" where
  "cd_record_len buf cd = cd_fname_len buf cd + cd_comment_len buf cd + cd_extra_len buf cd + 46"

text \<open>
  The entry \<open>f\<close> as it stands in \<open>arch->files\<close> once the record at \<open>cd\<close> is done: the
  walk over the extra fields sets its flag through the pointer after the entry was added.
\<close>

definition zip_cd_file :: "charset_env \<Rightarrow> byte list \<Rightarrow> nat \<Rightarrow> archive_file" where
  "zip_cd_file cenv buf cd =
     (let f = rspamd_archive_file_try_utf cenv new_file
                (take (cd_fname_len buf cd) (drop (cd + 46) buf));
          f = f\<lparr>compressed_size := ucast (cd_comp_size buf cd),
                uncompressed_size := ucast (cd_uncomp_size buf cd)\<rparr>;
          f = (if cd_flags buf cd AND 0x41 \<noteq> 0 then f\<lparr>file_encrypted := True\<rparr> else f);
          extra = cd + cd_fname_len buf cd + 46
      in if zip_extra_walk buf (extra + cd_extra_len buf cd) extra False
         then f\<lparr>file_encrypted := True\<rparr> else f)"

function zip_walk_cd ::
  "charset_env \<Rightarrow> byte list \<Rightarrow> nat \<Rightarrow> nat \<Rightarrow> nat \<Rightarrow> archive \<Rightarrow> zip_reject + archive" where
  "zip_walk_cd cenv buf eocd bound cd arch =
     (if cd < bound then
        (if int eocd - int cd < 46 \<or> take 4 (drop cd buf) \<noteq> [0x50, 0x4b, 0x01, 0x02]
         then Inl BadCdRecord
         else if cd + cd_record_len buf cd > eocd then Inl TooLargeCdRecord
         else (let f = zip_cd_file cenv buf cd
               in if fname f \<noteq> None then
                    zip_walk_cd cenv buf eocd bound (cd + cd_record_len buf cd)
                      (arch\<lparr>files := files arch @ [f],
                            arch_has_obfuscated_files :=
                              arch_has_obfuscated_files arch \<or> file_obfuscated f\<rparr>)
                  else Inl NoFileName))
      else Inr arch)"
  by pat_completeness auto
termination
  by (relation "measure (\<lambda>(cenv, buf, eocd, bound, cd, arch). bound - cd)")
     (auto simp: cd_record_len_def)

declare zip_walk_cd.simps [simp del]

definition zip_parse :: "charset_env \<Rightarrow> mime_part \<Rightarrow> zip_reject + archive" where
  "zip_parse cenv part =
     (let buf = parsed_data part;
          endp = int (length buf) - 1
      in (case zip_find_eocd buf (endp - 21) 0 of
            None \<Rightarrow> Inl NoEocd
          | Some eocd \<Rightarrow>
              if endp - eocd < 21 then Inl ShortEocd
              else (let cd_size = (rd_le buf (nat eocd + 12) 4 :: 32 word);
                        cd_offset = (rd_le buf (nat eocd + 16) 4 :: 32 word)
                    in if cd_offset + cd_size > word_of_int eocd then Inl BadCdExtent
                       else zip_walk_cd cenv buf (nat eocd) (unat cd_offset + unat cd_size)
                              (unat cd_offset)
                              (new_archive RSPAMD_ARCHIVE_ZIP (cd_filename part)))))"

definition rspamd_archive_process_zip :: "charset_env \<Rightarrow> mime_part \<Rightarrow> mime_part" where
  "rspamd_archive_process_zip cenv part =
     (case zip_parse cenv part of
        Inl why \<Rightarrow> part
      | Inr arch \<Rightarrow> attach part arch)"

subsection \<open>The extra area in the words of the specification\<close>

text \<open>
  The extra area of a record read as \<open>(id:u16, len:u16, payload:len)\<close> records, one
  after the other, as long as four bytes of a header are left.
\<close>

function zip_extra_records :: "byte list \<Rightarrow> (16 word \<times> byte list) list" where
  "zip_extra_records ex =
     (if length ex < 4 then []
      else (rd_le ex 0 2, take (unat (rd_le ex 2 2 :: 16 word)) (drop 4 ex))
           # zip_extra_records (drop (4 + unat (rd_le ex 2 2 :: 16 word)) ex))"
  by pat_completeness auto
termination
  by (relation "measure length") auto

declare zip_extra_records.simps [simp del]

subsection \<open>Concrete ZIP inputs\<close>

definition part_of :: "byte list \<Rightarrow> byte list option \<Rightarrow> mime_part" where
  "part_of buf fn = \<lparr>parsed_data = buf, cd_filename = fn,
     part_type = RSPAMD_MIME_PART_UNDEFINED, specific_arch = None\<rparr>"

text \<open>
  Two padding bytes, one central directory record for the name \<open>a\<close> at offset 2, and
  at offset 49 an end record with \<open>cd_size = 0xFFFFFFFE\<close> and \<open>cd_offset = 2\<close>.
\<close>

definition zip_wrapped_extent :: "byte list" where
  "zip_wrapped_extent =
     [0x00, 0x00,
      0x50, 0x4b, 0x01, 0x02,  0x14, 0x03,  0x14, 0x00,  0x00, 0x00,  0x00, 0x00,
      0x00, 0x00,  0x00, 0x00,  0x00, 0x00, 0x00, 0x00,  0x00, 0x00, 0x00, 0x00,
      0x00, 0x00, 0x00, 0x00,  0x01, 0x00,  0x00, 0x00,  0x00, 0x00,  0x00, 0x00,
      0x00, 0x00,  0x00, 0x00, 0x00, 0x00,  0x00, 0x00, 0x00, 0x00,
      0x61,
      0x50, 0x4b, 0x05, 0x06,  0x00, 0x00,  0x00, 0x00,  0x01, 0x00,  0x01, 0x00,
      0xFE, 0xFF, 0xFF, 0xFF,  0x02, 0x00, 0x00, 0x00,  0x00, 0x00]"

text \<open>
  One central directory record for the name \<open>a\<close> with flags 0 and the four bytes
  \<open>17 00 00 00\<close> as its extra area, and the end record at offset 51.
\<close>

definition zip_trailing_0017 :: "byte list" where
  "zip_trailing_0017 =
     [0x50, 0x4b, 0x01, 0x02,  0x14, 0x03,  0x14, 0x00,  0x00, 0x00,  0x00, 0x00,
      0x00, 0x00,  0x00, 0x00,  0x00, 0x00, 0x00, 0x00,  0x00, 0x00, 0x00, 0x00,
      0x00, 0x00, 0x00, 0x00,  0x01, 0x00,  0x04, 0x00,  0x00, 0x00,  0x00, 0x00,
      0x00, 0x00,  0x00, 0x00, 0x00, 0x00,  0x00, 0x00, 0x00, 0x00,
      0x61,
      0x17, 0x00, 0x00, 0x00,
      0x50, 0x4b, 0x05, 0x06,  0x00, 0x00,  0x00, 0x00,  0x01, 0x00,  0x01, 0x00,
      0x33, 0x00, 0x00, 0x00,  0x00, 0x00, 0x00, 0x00,  0x00, 0x00]"

section \<open>The gzip reader\<close>

fun memchr :: "byte list \<Rightarrow> byte \<Rightarrow> nat option" where
  "memchr [] c = None"
| "memchr (b # bs) c = (if b = c then Some 0 else map_option Suc (memchr bs c))"

text \<open>
  Modelled from the spec: \<open>rspamd_memrchr\<close> is not among the sources. It is the
  offset of the last byte equal to \<open>c\<close>, \<open>None\<close> for \<open>NULL\<close>: the spec strips the
  directory at the last \<open>/\<close> and the suffix at the last \<open>.\<close>.
\<close>

definition rspamd_memrchr :: "byte list \<Rightarrow> byte \<Rightarrow> nat option" where
  "rspamd_memrchr s c =
     (case memchr (rev s) c of None \<Rightarrow> None | Some i \<Rightarrow> Some (length s - 1 - i))"

datatype gzip_reject = GzNoMagic | GzBadInt16 | GzBadExtraLength | GzBadFilename | GzNoFallback

text \<open>
  The scan for the end of the name: the bytes from \<open>p\<close> on and \<open>p - fname_start\<close>. A NUL
  at \<open>fname_start\<close> itself does not end the scan.
\<close>

fun gzip_name_end :: "byte list \<Rightarrow> nat \<Rightarrow> nat option" where
  "gzip_name_end [] k = None"
| "gzip_name_end (b # bs) k = (if b = 0 \<and> k > 0 then Some k else gzip_name_end bs (Suc k))"

text \<open>The optional section: \<open>RAR_READ_UINT16(optlen)\<close> and the skip.\<close>

definition gzip_skip_extra :: "byte list \<Rightarrow> nat \<Rightarrow> gzip_reject + nat" where
  "gzip_skip_extra buf p =
     (if int (length buf) - int p < 2 then Inl GzBadInt16
      else (let optlen = unat (rd_le buf p 2 :: 16 word);
                p = p + 2
            in if length buf \<le> p + optlen then Inl GzBadExtraLength
               else Inr (p + optlen)))"

definition dot :: byte where "dot = 0x2E"
definition slash :: byte where "slash = 0x2F"

text \<open>The name taken from the name of the container, \<open>None\<close> when it has no dot.\<close>

definition gzip_fallback_name :: "byte list \<Rightarrow> byte list option" where
  "gzip_fallback_name fn =
     (case rspamd_memrchr fn dot of
        None \<Rightarrow> None
      | Some dot_pos \<Rightarrow>
          (let slash_pos = rspamd_memrchr fn slash
           in if slash_pos \<noteq> None \<and> the slash_pos < dot_pos
              then Some (take (dot_pos - the slash_pos - 1) (drop (the slash_pos + 1) fn))
              else if memchr fn dot \<noteq> Some dot_pos then Some (take dot_pos fn)
              else Some fn))"

definition gzip_parse :: "charset_env \<Rightarrow> mime_part \<Rightarrow> gzip_reject + archive" where
  "gzip_parse cenv part =
     (let buf = parsed_data part
      in if length buf \<le> 10 \<or> take 2 buf \<noteq> [0x1F, 0x8B] then Inl GzNoMagic
         else
          (let arch = new_archive RSPAMD_ARCHIVE_GZIP (cd_filename part);
               flags = buf ! 3;
               arch = (if flags AND push_bit 5 1 \<noteq> 0 then arch\<lparr>arch_encrypted := True\<rparr> else arch)
           in if flags AND push_bit 3 1 \<noteq> 0 then
                (let p = (if flags AND push_bit 1 1 \<noteq> 0 then 12 else 10)
                 in (case (if flags AND push_bit 2 1 \<noteq> 0 then gzip_skip_extra buf p else Inr p) of
                       Inl why \<Rightarrow> Inl why
                     | Inr p \<Rightarrow>
                        (case gzip_name_end (drop p buf) 0 of
                           None \<Rightarrow> Inl GzBadFilename
                         | Some n \<Rightarrow>
                            (let f = rspamd_archive_file_try_utf cenv new_file (take n (drop p buf))
                             in if fname f \<noteq> None
                                then Inr (arch\<lparr>files := files arch @ [f],
                                           arch_has_obfuscated_files :=
                                             arch_has_obfuscated_files arch \<or> file_obfuscated f\<rparr>)
                                else Inr arch))))
              else
                (case cd_filename part of
                   None \<Rightarrow> Inl GzNoFallback
                 | Some fn \<Rightarrow>
                     if length fn > 0 then
                       (case gzip_fallback_name fn of
                          None \<Rightarrow> Inl GzNoFallback
                        | Some nm \<Rightarrow> Inr (arch\<lparr>files := files arch @ [new_file\<lparr>fname := Some nm\<rparr>]\<rparr>))
                     else Inl GzNoFallback)))"

definition rspamd_archive_process_gzip :: "charset_env \<Rightarrow> mime_part \<Rightarrow> mime_part" where
  "rspamd_archive_process_gzip cenv part =
     (case gzip_parse cenv part of
        Inl why \<Rightarrow> part
      | Inr arch \<Rightarrow> attach part arch)"

text \<open>
  The fallback name in the words of the claim: the directory (everything up to the last
  \<open>/\<close>) stripped, then the suffix from the last \<open>.\<close> on dropped.
\<close>

definition claimed_gzip_fallback :: "byte list \<Rightarrow> byte list" where
  "claimed_gzip_fallback fn =
     (let base = (case rspamd_memrchr fn slash of None \<Rightarrow> fn | Some i \<Rightarrow> drop (Suc i) fn)
      in (case rspamd_memrchr base dot of None \<Rightarrow> base | Some j \<Rightarrow> take j base))"

subsection \<open>Concrete gzip inputs\<close>

text \<open>
  A charset detector that knows 7-bit names only, with converters that keep them as
  they are.
\<close>

definition toy_cenv :: charset_env where
  "toy_cenv = \<lparr>
     charset_find_by_content = (\<lambda>b. if list_all (\<lambda>x. x < 0x80) b then Some ''UTF-8'' else None),
     converter_available = (\<lambda>cs. True),
     converter_to_uchars = (\<lambda>cs b. Some (map ucast b)),
     utf8_from_uchars = (\<lambda>us. Some (map ucast us)),
     u_iscntrl = (\<lambda>c. c < 0x20 \<or> (0x7F \<le> c \<and> c < 0xA0)),
     is_zero_width_space = (\<lambda>c. c = 0x200B \<or> c = 0x200C \<or> c = 0x200D \<or> c = 0xFEFF),
     bytes_behind = (\<lambda>i. 0)\<rparr>"

text \<open>A gzip header without any optional field, and the names \<open>foo.gz\<close>, \<open>dir/foo\<close>, \<open>gz\<close>, \<open>foo\<close>.\<close>

definition gz_plain :: "byte list" where
  "gz_plain = [0x1F, 0x8B, 0x08, 0x00, 0x00, 0x00, 0x00, 0x00, 0x00, 0x03, 0x00]"

definition name_foo_gz :: "byte list" where
  "name_foo_gz = [0x66, 0x6F, 0x6F, 0x2E, 0x67, 0x7A]"

definition name_dir_foo :: "byte list" where
  "name_dir_foo = [0x64, 0x69, 0x72, 0x2F, 0x66, 0x6F, 0x6F]"

definition name_gz :: "byte list" where
  "name_gz = [0x67, 0x7A]"

definition name_foo :: "byte list" where
  "name_foo = [0x66, 0x6F, 0x6F]"

section \<open>The RAR reader\<close>

text \<open>
  The cursor macros of the RAR readers. A \<open>return\<close> taken inside a macro is \<open>None\<close>.
  \<open>end - p\<close> is cast to \<open>gsize\<close> where the C text does so.
\<close>

definition gsize_diff :: "nat \<Rightarrow> nat \<Rightarrow> nat" where
  "gsize_diff e p = nat ((int e - int p) mod 2 ^ 64)"

definition rar_skip_bytes :: "byte list \<Rightarrow> nat \<Rightarrow> nat \<Rightarrow> nat option" where
  "rar_skip_bytes buf p n =
     (if n \<le> 0 then None
      else if gsize_diff (length buf) p < n then None
      else Some (p + n))"

definition rar_read_vint_skip :: "byte list \<Rightarrow> nat \<Rightarrow> (64 word \<times> nat) option" where
  "rar_read_vint_skip buf p =
     (case rspamd_archive_rar_read_vint (drop p buf) of
        None \<Rightarrow> None
      | Some (vint, r) \<Rightarrow> Some (vint, p + r))"

definition rar_read_uint16 :: "byte list \<Rightarrow> nat \<Rightarrow> (16 word \<times> nat) option" where
  "rar_read_uint16 buf p =
     (if int (length buf) - int p < 2 then None
      else Some (rd_le buf p 2, p + 2))"

definition rar_read_uint32 :: "byte list \<Rightarrow> nat \<Rightarrow> (32 word \<times> nat) option" where
  "rar_read_uint32 buf p =
     (if int (length buf) - int p < 4 then None
      else Some (rd_le buf p 4, p + 4))"

text \<open>
  What one turn of a record loop does: it returns without attaching anything, it
  leaves the loop by \<open>goto end\<close>, or it goes on at a new cursor.
\<close>

datatype 'a walk_step = Reject | Stop 'a | Continue nat 'a

text \<open>\<open>p = start_section; RAR_SKIP_BYTES(sz);\<close> at the end of a turn.\<close>

definition rar_next_record :: "byte list \<Rightarrow> nat \<Rightarrow> 64 word \<Rightarrow> 'a \<Rightarrow> 'a walk_step" where
  "rar_next_record buf section_start sz st =
     (case rar_skip_bytes buf section_start (unat sz) of
        None \<Rightarrow> Reject
      | Some p \<Rightarrow> Continue p st)"

subsection \<open>Version 4\<close>

text \<open>
  The state of the loop is the archive and \<open>comp_sz\<close>, which a record without
  \<open>ADD_SIZE\<close> inherits from the records before it. The name is read after the checks
  of \<open>fname_len\<close> and twelve more bytes at most; the model reads what the buffer has.
\<close>

definition rar4_file_name :: "charset_env \<Rightarrow> byte list \<Rightarrow> nat \<Rightarrow> 16 word \<Rightarrow> nat \<Rightarrow> archive_file" where
  "rar4_file_name cenv buf p flags fname_len =
     (let raw = mem_read cenv buf p fname_len
      in if flags AND 0x200 \<noteq> 0 then
           (case memchr raw 0 of
              Some n \<Rightarrow> rspamd_archive_file_try_utf cenv new_file (take n raw)
            | None \<Rightarrow> rspamd_archive_file_try_utf cenv new_file raw)
         else rspamd_archive_file_try_utf cenv new_file raw)"

definition add_file :: "archive \<Rightarrow> archive_file \<Rightarrow> archive" where
  "add_file arch f =
     (if fname f \<noteq> None
      then arch\<lparr>files := files arch @ [f],
                arch_has_obfuscated_files := arch_has_obfuscated_files arch \<or> file_obfuscated f\<rparr>
      else arch)"

definition rar4_file_header ::
  "charset_env \<Rightarrow> byte list \<Rightarrow> nat \<Rightarrow> 16 word \<Rightarrow> 64 word \<Rightarrow> 64 word \<Rightarrow> archive
     \<Rightarrow> (64 word \<times> 64 word \<times> archive) option" where
  "rar4_file_header cenv buf p flags sz comp_sz arch = do {
     (uncomp, p) \<leftarrow> rar_read_uint32 buf p;
     p \<leftarrow> rar_skip_bytes buf p 11;
     (fname_len, p) \<leftarrow> rar_read_uint16 buf p;
     if fname_len = 0 \<or> unat fname_len > gsize_diff (length buf) p then None
     else do {
       p \<leftarrow> rar_skip_bytes buf p 4;
       (sz, comp_sz, uncomp_sz, p) \<leftarrow>
         (if flags AND 0x100 \<noteq> 0 then do {
            (tmp, p) \<leftarrow> rar_read_uint32 buf p;
            (tmp2, p) \<leftarrow> rar_read_uint32 buf p;
            Some (sz + ucast tmp, comp_sz + ucast tmp, (ucast uncomp :: 64 word) + ucast tmp2, p)
          } else Some (sz, comp_sz, ucast uncomp, p));
       let f = rar4_file_name cenv buf p flags (unat fname_len);
       let f = f\<lparr>compressed_size := comp_sz, uncompressed_size := uncomp_sz\<rparr>;
       let f = (if flags AND 0x4 \<noteq> 0 then f\<lparr>file_encrypted := True\<rparr> else f);
       Some (sz, comp_sz, add_file arch f)
     }
   }"

text \<open>
  The head of a record up to the zero test of \<open>sz\<close>: \<open>None\<close> for a \<open>return\<close>, \<open>Inl\<close>
  for the encrypted main header.
\<close>

definition rar4_record_head ::
  "byte list \<Rightarrow> nat \<Rightarrow> 64 word \<Rightarrow> archive
     \<Rightarrow> (archive + (byte \<times> 16 word \<times> 64 word \<times> 64 word \<times> nat)) option" where
  "rar4_record_head buf p comp_sz arch = do {
     p \<leftarrow> rar_skip_bytes buf p 2;
     let type = (if p < length buf then buf ! p else 0);
     let p = p + 1;
     (flags, p) \<leftarrow> rar_read_uint16 buf p;
     if type = 0x73 \<and> flags AND 0x80 \<noteq> 0 then Some (Inl (arch\<lparr>arch_encrypted := True\<rparr>))
     else do {
       (sz16, p) \<leftarrow> rar_read_uint16 buf p;
       (sz, comp_sz, p) \<leftarrow>
         (if flags AND 0x8000 \<noteq> 0 then do {
            (tmp, p) \<leftarrow> rar_read_uint32 buf p;
            Some ((ucast sz16 :: 64 word) + ucast tmp, (ucast tmp :: 64 word), p)
          } else Some (ucast sz16, comp_sz, p));
       if sz = 0 then None
       else Some (Inr (type, flags, sz, comp_sz, p))
     }
   }"

definition rar4_step ::
  "charset_env \<Rightarrow> byte list \<Rightarrow> nat \<Rightarrow> archive \<times> 64 word \<Rightarrow> (archive \<times> 64 word) walk_step" where
  "rar4_step cenv buf start_section st =
     (case rar4_record_head buf start_section (snd st) (fst st) of
        None \<Rightarrow> Reject
      | Some (Inl arch) \<Rightarrow> Stop (arch, snd st)
      | Some (Inr (type, flags, sz, comp_sz, p)) \<Rightarrow>
          if type = 0x74 then
            (case rar4_file_header cenv buf p flags sz comp_sz (fst st) of
               None \<Rightarrow> Reject
             | Some (sz, comp_sz, arch) \<Rightarrow> rar_next_record buf start_section sz (arch, comp_sz))
          else rar_next_record buf start_section sz (fst st, comp_sz))"

lemma rar_skip_bytes_advances:
  "rar_skip_bytes buf p n = Some p' \<Longrightarrow> p \<le> length buf \<Longrightarrow> p < p' \<and> p' \<le> length buf"
proof -
  assume a: "rar_skip_bytes buf p n = Some p'" and b: "p \<le> length buf"
  have "(int (length buf) - int p) mod 2 ^ 64 \<le> int (length buf) - int p"
    using b by (intro zmod_le_nonneg_dividend) simp
  then have "gsize_diff (length buf) p \<le> length buf - p"
    by (simp add: gsize_diff_def)
  with a show ?thesis
    by (auto simp: rar_skip_bytes_def split: if_splits)
qed

lemma rar_next_record_advances:
  "rar_next_record buf p sz st = Continue p' st' \<Longrightarrow> p \<le> length buf \<Longrightarrow> p < p' \<and> p' \<le> length buf"
  by (auto simp: rar_next_record_def split: option.splits dest: rar_skip_bytes_advances)

lemma rar4_step_advances:
  "rar4_step cenv buf p st = Continue p' st' \<Longrightarrow> p \<le> length buf \<Longrightarrow> p < p' \<and> p' \<le> length buf"
  by (auto simp: rar4_step_def split: option.splits sum.splits if_splits prod.splits
      dest!: rar_next_record_advances)

function rar4_walk :: "charset_env \<Rightarrow> byte list \<Rightarrow> nat \<Rightarrow> archive \<times> 64 word \<Rightarrow> archive option" where
  "rar4_walk cenv buf p st =
     (if p < length buf then
        (case rar4_step cenv buf p st of
           Reject \<Rightarrow> None
         | Stop st' \<Rightarrow> Some (fst st')
         | Continue p' st' \<Rightarrow> rar4_walk cenv buf p' st')
      else Some (fst st))"
  by pat_completeness auto
termination
proof (relation "measure (\<lambda>(cenv, buf, p, st). length buf - p)")
  show "wf (measure (\<lambda>(cenv, buf, p, st). length buf - p))" by simp
next
  fix cenv buf p st p' st'
  assume lt: "p < length buf" and step: "rar4_step cenv buf p st = Continue p' st'"
  from lt have "p \<le> length buf" by simp
  from rar4_step_advances [OF step this] lt
  show "((cenv, buf, p', st'), (cenv, buf, p, st)) \<in> measure (\<lambda>(cenv, buf, p, st). length buf - p)"
    by auto
qed

declare rar4_walk.simps [simp del]


subsection \<open>Version 5\<close>

text \<open>
  The scan of the extra area of a file record for an encryption record. It may go on
  for ever; not returning is \<open>None\<close>. \<open>lim\<close> is \<open>p + extra_sz\<close>. Each \<open>vint\<close> is
  read with \<open>extra_sz\<close> as the number of bytes left, whatever the buffer has left.
\<close>

datatype extra_scan = ExtraBadVint | ExtraEncrypted | ExtraDone

partial_function (option) rar5_extra_scan ::
  "charset_env \<Rightarrow> byte list \<Rightarrow> nat \<Rightarrow> nat \<Rightarrow> nat \<Rightarrow> extra_scan option" where
  "rar5_extra_scan cenv buf lim extra_sz ex =
     (if ex < lim then
        (case rspamd_archive_rar_read_vint (mem_read cenv buf ex extra_sz) of
           None \<Rightarrow> Some ExtraBadVint
         | Some (cur_sz, r) \<Rightarrow>
            (case rspamd_archive_rar_read_vint (mem_read cenv buf (ex + r) (extra_sz - r)) of
               None \<Rightarrow> Some ExtraBadVint
             | Some (sec_type, r') \<Rightarrow>
                 if sec_type = 0x01 then Some ExtraEncrypted
                 else rar5_extra_scan cenv buf lim extra_sz (ex + unat cur_sz)))
      else Some ExtraDone)"

text \<open>
  The head of a record: checksum, size, type, flags, the size of the extra area and of
  the data area. \<open>None\<close> is a \<open>return\<close>. The result is \<open>sz\<close>, \<open>section_start\<close>, the type,
  \<open>has_extra\<close>, \<open>extra_sz\<close> (read only where \<open>has_extra\<close> is set), \<open>comp_sz\<close> and the
  cursor.
\<close>

definition rar5_record_head ::
  "byte list \<Rightarrow> nat \<Rightarrow> 64 word
     \<Rightarrow> (64 word \<times> nat \<times> 64 word \<times> bool \<times> 64 word \<times> 64 word \<times> nat) option" where
  "rar5_record_head buf p comp_sz = do {
     p \<leftarrow> rar_skip_bytes buf p 4;
     (sz, p) \<leftarrow> rar_read_vint_skip buf p;
     if sz = 0 then None
     else do {
       let section_start = p;
       (type, p) \<leftarrow> rar_read_vint_skip buf p;
       (flags, p) \<leftarrow> rar_read_vint_skip buf p;
       (has_extra, extra_sz, p) \<leftarrow>
         (if flags AND 0x1 \<noteq> 0 then do {
            (vint, p) \<leftarrow> rar_read_vint_skip buf p;
            Some (True, vint, p)
          } else Some (False, 0, p));
       (sz, comp_sz, p) \<leftarrow>
         (if flags AND 0x2 \<noteq> 0 then do {
            (vint, p) \<leftarrow> rar_read_vint_skip buf p;
            Some (sz + vint, vint, p)
          } else Some (sz, comp_sz, p));
       Some (sz, section_start, type, has_extra, extra_sz, comp_sz, p)
     }
   }"

text \<open>
  The file header up to the name: \<open>None\<close> is a \<open>return\<close>, \<open>Some None\<close> a directory,
  else the unpacked size, the length of the name and the cursor at the name.
\<close>

definition rar5_file_head :: "byte list \<Rightarrow> nat \<Rightarrow> (64 word \<times> 64 word \<times> nat) option option" where
  "rar5_file_head buf p = do {
     (flags, p) \<leftarrow> rar_read_vint_skip buf p;
     (uncomp_sz, p) \<leftarrow> rar_read_vint_skip buf p;
     (attrs, p) \<leftarrow> rar_read_vint_skip buf p;
     p \<leftarrow> (if flags AND 0x2 \<noteq> 0 then rar_skip_bytes buf p 4 else Some p);
     p \<leftarrow> (if flags AND 0x4 \<noteq> 0 then rar_skip_bytes buf p 4 else Some p);
     if flags AND 0x1 \<noteq> 0 then Some None
     else do {
       (compression, p) \<leftarrow> rar_read_vint_skip buf p;
       (host_os, p) \<leftarrow> rar_read_vint_skip buf p;
       (fname_len, p) \<leftarrow> rar_read_vint_skip buf p;
       if fname_len = 0 \<or> unat fname_len > gsize_diff (length buf) p then None
       else Some (Some (uncomp_sz, fname_len, p))
     }
   }"

text \<open>
  The entry of a file record and the scan of its extra area. The outer \<open>None\<close> is a
  scan that never returns.
\<close>

definition rar5_file_entry ::
  "charset_env \<Rightarrow> byte list \<Rightarrow> nat \<Rightarrow> 64 word \<Rightarrow> 64 word \<Rightarrow> 64 word \<Rightarrow> bool \<Rightarrow> 64 word \<Rightarrow> archive
     \<Rightarrow> archive option option" where
  "rar5_file_entry cenv buf p fname_len uncomp_sz comp_sz has_extra extra_sz arch =
     (let f = new_file\<lparr>uncompressed_size := uncomp_sz, compressed_size := comp_sz\<rparr>;
          f = rspamd_archive_file_try_utf cenv f (take (unat fname_len) (drop p buf))
      in if fname f \<noteq> None \<and> has_extra \<and> extra_sz > 0
            \<and> p + unat fname_len + unat extra_sz < length buf
         then (case rar5_extra_scan cenv buf (p + unat extra_sz) (unat extra_sz) (p + unat fname_len) of
                 None \<Rightarrow> None
               | Some ExtraBadVint \<Rightarrow> Some None
               | Some ExtraEncrypted \<Rightarrow>
                   Some (Some ((add_file arch (f\<lparr>file_encrypted := True\<rparr>))\<lparr>arch_encrypted := True\<rparr>))
               | Some ExtraDone \<Rightarrow> Some (Some (add_file arch f)))
         else Some (Some (add_file arch f)))"

definition rar5_step ::
  "charset_env \<Rightarrow> byte list \<Rightarrow> nat \<Rightarrow> archive \<times> 64 word \<Rightarrow> (archive \<times> 64 word) walk_step option" where
  "rar5_step cenv buf p st =
     (case rar5_record_head buf p (snd st) of
        None \<Rightarrow> Some Reject
      | Some (sz, section_start, type, has_extra, extra_sz, comp_sz, p) \<Rightarrow>
          if type \<noteq> 2 then Some (rar_next_record buf section_start sz (fst st, comp_sz))
          else (case rar5_file_head buf p of
                  None \<Rightarrow> Some Reject
                | Some None \<Rightarrow> Some (rar_next_record buf section_start sz (fst st, comp_sz))
                | Some (Some (uncomp_sz, fname_len, p)) \<Rightarrow>
                   (case rar5_file_entry cenv buf p fname_len uncomp_sz comp_sz has_extra extra_sz
                           (fst st) of
                      None \<Rightarrow> None
                    | Some None \<Rightarrow> Some Reject
                    | Some (Some arch) \<Rightarrow>
                        Some (rar_next_record buf section_start sz (arch, comp_sz)))))"

lemma rar_vint_loop_bounds:
  "rar_vint_loop bs shift t n = (rem, sh, t', n')
     \<Longrightarrow> n \<le> n' \<and> n' \<le> n + length bs \<and> (bs \<noteq> [] \<and> shift \<le> 57 \<longrightarrow> n < n')"
proof (induction bs arbitrary: shift t n)
  case Nil
  then show ?case by simp
next
  case (Cons b bs)
  show ?case
  proof (cases "shift \<le> 57 \<and> b AND 0x80 \<noteq> 0")
    case True
    with Cons.prems have "rar_vint_loop bs (shift + 7) (t OR push_bit shift (ucast (b AND 0x7f))) (n + 1)
        = (rem, sh, t', n')" by simp
    from Cons.IH [OF this] show ?thesis by simp
  next
    case False
    with Cons.prems show ?thesis by (auto split: if_splits)
  qed
qed

lemma rar_read_vint_consumed:
  assumes "rspamd_archive_rar_read_vint bs = Some (v, r)"
  shows "0 < r \<and> r \<le> length bs"
proof -
  obtain rem sh t' n' where l: "rar_vint_loop bs 0 0 0 = (rem, sh, t', n')"
    by (metis prod_cases4)
  with assms have "rem \<noteq> 0" and r: "r = n'"
    by (auto simp: rspamd_archive_rar_read_vint_def split: if_splits)
  have "bs \<noteq> []"
    using l \<open>rem \<noteq> 0\<close> by (cases bs) auto
  with rar_vint_loop_bounds [OF l] r show ?thesis by simp
qed

lemma rar_read_vint_skip_advances:
  "rar_read_vint_skip buf p = Some (v, p') \<Longrightarrow> p \<le> length buf \<Longrightarrow> p < p' \<and> p' \<le> length buf"
  by (auto simp: rar_read_vint_skip_def split: option.splits dest!: rar_read_vint_consumed)

lemma rar5_record_head_section:
  assumes "rar5_record_head buf p comp_sz = Some (sz, section_start, type, has_extra, extra_sz, comp_sz', q)"
    and "p \<le> length buf"
  shows "p < section_start \<and> section_start \<le> length buf"
proof -
  from assms(1) obtain p1 v where p1: "rar_skip_bytes buf p 4 = Some p1"
    and p2: "rar_read_vint_skip buf p1 = Some (v, section_start)"
    by (auto simp: rar5_record_head_def Option.bind_eq_Some_conv split: if_splits prod.splits)
  from rar_skip_bytes_advances [OF p1 assms(2)] have a: "p < p1" "p1 \<le> length buf" by simp_all
  from rar_read_vint_skip_advances [OF p2 a(2)] a(1) show ?thesis by simp
qed

lemma rar5_step_advances:
  assumes "rar5_step cenv buf p st = Some (Continue p' st')" and "p \<le> length buf"
  shows "p < p' \<and> p' \<le> length buf"
proof -
  from assms(1) obtain sz section_start type has_extra extra_sz comp_sz q st''
    where h: "rar5_record_head buf p (snd st) = Some (sz, section_start, type, has_extra, extra_sz, comp_sz, q)"
      and n: "rar_next_record buf section_start sz st'' = Continue p' st'"
    by (auto simp: rar5_step_def split: option.splits if_splits prod.splits)
  from rar5_record_head_section [OF h assms(2)]
  have s: "p < section_start" "section_start \<le> length buf" by simp_all
  from rar_next_record_advances [OF n s(2)] s(1) show ?thesis by simp
qed

text \<open>
  The loop over the records. The outer \<open>None\<close> is a turn that never returns, the inner
  \<open>None\<close> a \<open>return\<close> that attaches nothing.
\<close>

function rar5_walk ::
  "charset_env \<Rightarrow> byte list \<Rightarrow> nat \<Rightarrow> archive \<times> 64 word \<Rightarrow> archive option option" where
  "rar5_walk cenv buf p st =
     (if p < length buf then
        (case rar5_step cenv buf p st of
           None \<Rightarrow> None
         | Some Reject \<Rightarrow> Some None
         | Some (Stop st') \<Rightarrow> Some (Some (fst st'))
         | Some (Continue p' st') \<Rightarrow> rar5_walk cenv buf p' st')
      else Some (Some (fst st)))"
  by pat_completeness auto
termination
proof (relation "measure (\<lambda>(cenv, buf, p, st). length buf - p)")
  show "wf (measure (\<lambda>(cenv, buf, p, st). length buf - p))" by simp
next
  fix cenv buf p st step p' st'
  assume lt: "p < length buf" and step: "rar5_step cenv buf p st = Some step"
    and c: "step = Continue p' st'"
  from lt have "p \<le> length buf" by simp
  from rar5_step_advances [OF step [unfolded c] this] lt
  show "((cenv, buf, p', st'), (cenv, buf, p, st)) \<in> measure (\<lambda>(cenv, buf, p, st). length buf - p)"
    by auto
qed

declare rar5_walk.simps [simp del]

text \<open>
  The first record after the version 5 magic: \<open>None\<close> is a \<open>return\<close>, \<open>Inl\<close> the
  encryption header, \<open>Inr\<close> the cursor after the main header.
\<close>

definition rar5_main_head :: "byte list \<Rightarrow> nat \<Rightarrow> archive \<Rightarrow> (archive + nat) option" where
  "rar5_main_head buf p arch = do {
     p \<leftarrow> rar_skip_bytes buf p 4;
     (sz, p) \<leftarrow> rar_read_vint_skip buf p;
     let section_start = p;
     (type, p) \<leftarrow> rar_read_vint_skip buf p;
     (flags, p) \<leftarrow> rar_read_vint_skip buf p;
     p \<leftarrow> (if flags AND 0x1 \<noteq> 0 then map_option snd (rar_read_vint_skip buf p) else Some p);
     (sz, p) \<leftarrow>
       (if flags AND 0x2 \<noteq> 0 then do {
          (vint, p) \<leftarrow> rar_read_vint_skip buf p;
          Some (sz + vint, p)
        } else Some (sz, p));
     if type = 4 then Some (Inl (arch\<lparr>arch_encrypted := True\<rparr>))
     else if type \<noteq> 1 then None
     else map_option Inr (rar_skip_bytes buf section_start (unat sz))
   }"

definition rar_v5_magic :: "byte list" where
  "rar_v5_magic = [0x52, 0x61, 0x72, 0x21, 0x1A, 0x07, 0x01, 0x00]"

definition rar_v4_magic :: "byte list" where
  "rar_v4_magic = [0x52, 0x61, 0x72, 0x21, 0x1A, 0x07, 0x00]"

text \<open>
  \<open>rspamd_archive_process_rar\<close> with \<open>rspamd_archive_process_rar_v4\<close>: the archive it
  attaches, the inner \<open>None\<close> when it returns without one, the outer \<open>None\<close> when it
  does not return.
\<close>

definition rar_parse :: "charset_env \<Rightarrow> mime_part \<Rightarrow> archive option option" where
  "rar_parse cenv part =
     (let buf = parsed_data part;
          arch = new_archive RSPAMD_ARCHIVE_RAR (cd_filename part)
      in if gsize_diff (length buf) 0 \<le> 8 then Some None
         else if take 8 buf = rar_v5_magic then
           (case rar5_main_head buf 8 arch of
              None \<Rightarrow> Some None
            | Some (Inl arch) \<Rightarrow> Some (Some arch)
            | Some (Inr p) \<Rightarrow> rar5_walk cenv buf p (arch, 0))
         else if take 7 buf = rar_v4_magic then Some (rar4_walk cenv buf 7 (arch, 0))
         else Some None)"

definition rspamd_archive_process_rar :: "charset_env \<Rightarrow> mime_part \<Rightarrow> mime_part option" where
  "rspamd_archive_process_rar cenv part =
     (case rar_parse cenv part of
        None \<Rightarrow> None
      | Some None \<Rightarrow> Some part
      | Some (Some arch) \<Rightarrow> Some (attach part arch))"

subsection \<open>A concrete RAR input\<close>

text \<open>
  The version 5 magic, a main header of three bytes, and one file record for the name
  \<open>a\<close> with an extra area of five bytes that starts with a record of size 0 and type 2.
\<close>

definition rar5_spin :: "byte list" where
  "rar5_spin =
     [0x52, 0x61, 0x72, 0x21, 0x1A, 0x07, 0x01, 0x00,
      0x00, 0x00, 0x00, 0x00,  0x03,  0x01,  0x00,  0x00,
      0x00, 0x00, 0x00, 0x00,  0x10,  0x02,  0x01,  0x05,
      0x00,  0x00,  0x00,  0x00,  0x00,  0x01,  0x61,
      0x00,  0x02,  0x00, 0x00, 0x00, 0x00]"

subsection \<open>The bytes of one entry\<close>

text \<open>
  What an entry adds to the archive and to the central directory once all stores into
  its local header are done; \<open>out\<close> is the output of zlib for its data.
\<close>

definition plain_entry_bytes :: "zip_env \<Rightarrow> zip_file_spec \<Rightarrow> string \<Rightarrow> byte list \<Rightarrow> byte list" where
  "plain_entry_bytes env f nm out =
     (let stored = (length out \<ge> length (data f))
      in u32le 0x04034b50 @ u16le 20 @ u16le (push_bit 11 1) @ u16le (if stored then 0 else 8)
         @ u16le (rspamd_zip_time_dos env (mtime f)) @ u16le (rspamd_zip_date_dos env (mtime f))
         @ u32le (crc32 env (data f))
         @ u32le (word_of_nat (if stored then length (data f) else length out))
         @ u32le (word_of_nat (length (data f)))
         @ u16le (word_of_nat (length nm)) @ u16le 0 @ map byte_of_char nm
         @ (if stored then data f else out))"

definition plain_cd_record :: "zip_env \<Rightarrow> zip_file_spec \<Rightarrow> string \<Rightarrow> byte list \<Rightarrow> 32 word \<Rightarrow> byte list" where
  "plain_cd_record env f nm out lo =
     (let stored = (length out \<ge> length (data f))
      in rspamd_zip_write_central_header env [] nm 20 (push_bit 11 1) (if stored then 0 else 8)
           (mtime f) (crc32 env (data f))
           (word_of_nat (if stored then length (data f) else length out))
           (word_of_nat (length (data f))) lo (mode f) 0)"

definition aes_vendor_tag :: "byte list" where
  "aes_vendor_tag = [byte_of_char CHR ''A'', byte_of_char CHR ''E'', 0x03]"

definition aes_entry_head :: "zip_env \<Rightarrow> zip_file_spec \<Rightarrow> string \<Rightarrow> 32 word \<Rightarrow> 16 word \<Rightarrow> byte list" where
  "aes_entry_head env f nm cs am =
     u32le 0x04034b50 @ u16le 51 @ u16le (push_bit 11 1 OR 1) @ u16le 99
       @ u16le (rspamd_zip_time_dos env (mtime f)) @ u16le (rspamd_zip_date_dos env (mtime f))
       @ u32le 0 @ u32le cs @ u32le (word_of_nat (length (data f)))
       @ u16le (word_of_nat (length nm)) @ u16le 11 @ map byte_of_char nm
       @ u16le 0x9901 @ u16le 7 @ u16le 2 @ aes_vendor_tag @ u16le am"

subsection \<open>Archives written with the toy collaborators\<close>

definition zip_a_txt_aes :: "byte list" where
  "zip_a_txt_aes =
     [80, 75, 3, 4, 51, 0, 1, 8, 99, 0, 239, 97, 110, 87, 0, 0, 0, 0, 31, 0,
      0, 0, 5, 0, 0, 0, 5, 0, 11, 0, 97, 46, 116, 120, 116, 1, 153, 7, 0, 2,
      0, 65, 69, 3, 8, 0, 0, 0, 0, 0, 0, 0, 0, 0, 0, 0, 0, 0, 0, 0, 0, 0,
      90, 90, 151, 147, 144, 165, 165, 165, 165, 165, 165, 165, 165, 165,
      165, 80, 75, 1, 2, 20, 3, 51, 0, 1, 8, 99, 0, 239, 97, 110, 87, 0, 0,
      0, 0, 31, 0, 0, 0, 5, 0, 0, 0, 5, 0, 11, 0, 0, 0, 0, 0, 0, 0, 0, 0,
      164, 1, 0, 0, 0, 0, 97, 46, 116, 120, 116, 1, 153, 7, 0, 2, 0, 65, 69,
      3, 8, 0, 80, 75, 5, 6, 0, 0, 0, 0, 1, 0, 1, 0, 62, 0, 0, 0, 77, 0, 0,
      0, 0, 0]"

definition zip_a_c_aes :: "byte list" where
  "zip_a_c_aes =
     [80, 75, 3, 4, 51, 0, 1, 8, 99, 0, 239, 97, 110, 87, 0, 0, 0, 0, 31, 0,
      0, 0, 5, 0, 0, 0, 5, 0, 11, 0, 97, 46, 116, 120, 116, 1, 153, 7, 0, 2,
      0, 65, 69, 3, 8, 0, 0, 0, 0, 0, 0, 0, 0, 0, 0, 0, 0, 0, 0, 0, 0, 0,
      90, 90, 151, 147, 144, 165, 165, 165, 165, 165, 165, 165, 165, 165,
      165, 80, 75, 3, 4, 51, 0, 1, 8, 99, 0, 239, 97, 110, 87, 0, 0, 0, 0,
      29, 0, 0, 0, 1, 0, 0, 0, 1, 0, 11, 0, 99, 1, 153, 7, 0, 2, 0, 65, 69,
      3, 0, 0, 1, 1, 1, 1, 1, 1, 1, 1, 1, 1, 1, 1, 1, 1, 1, 1, 90, 90, 133,
      165, 165, 165, 165, 165, 165, 165, 165, 165, 165, 80, 75, 1, 2, 20, 3,
      51, 0, 1, 8, 99, 0, 239, 97, 110, 87, 0, 0, 0, 0, 31, 0, 0, 0, 5, 0,
      0, 0, 5, 0, 11, 0, 0, 0, 0, 0, 0, 0, 0, 0, 164, 1, 0, 0, 0, 0, 97, 46,
      116, 120, 116, 1, 153, 7, 0, 2, 0, 65, 69, 3, 8, 0, 80, 75, 1, 2, 20,
      3, 51, 0, 1, 8, 99, 0, 239, 97, 110, 87, 0, 0, 0, 0, 29, 0, 0, 0, 1,
      0, 0, 0, 1, 0, 11, 0, 0, 0, 0, 0, 0, 0, 0, 0, 164, 1, 77, 0, 0, 0, 99,
      1, 153, 7, 0, 2, 0, 65, 69, 3, 0, 0, 80, 75, 5, 6, 0, 0, 0, 0, 2, 0,
      2, 0, 120, 0, 0, 0, 148, 0, 0, 0, 0, 0]"

definition zip_a_b_plain :: "byte list" where
  "zip_a_b_plain =
     [80, 75, 3, 4, 20, 0, 0, 8, 8, 0, 239, 97, 110, 87, 0, 0, 0, 0, 3, 0,
      0, 0, 5, 0, 0, 0, 5, 0, 0, 0, 97, 46, 116, 120, 116, 104, 108, 111,
      80, 75, 3, 4, 20, 0, 0, 8, 8, 0, 239, 97, 110, 87, 0, 0, 0, 0, 2, 0,
      0, 0, 3, 0, 0, 0, 5, 0, 0, 0, 98, 46, 98, 105, 110, 0, 2, 80, 75, 1,
      2, 20, 3, 20, 0, 0, 8, 8, 0, 239, 97, 110, 87, 0, 0, 0, 0, 3, 0, 0, 0,
      5, 0, 0, 0, 5, 0, 0, 0, 0, 0, 0, 0, 0, 0, 0, 0, 164, 1, 0, 0, 0, 0,
      97, 46, 116, 120, 116, 80, 75, 1, 2, 20, 3, 20, 0, 0, 8, 8, 0, 239,
      97, 110, 87, 0, 0, 0, 0, 2, 0, 0, 0, 3, 0, 0, 0, 5, 0, 0, 0, 0, 0, 0,
      0, 0, 0, 0, 0, 237, 1, 38, 0, 0, 0, 98, 46, 98, 105, 110, 80, 75, 5,
      6, 0, 0, 0, 0, 2, 0, 2, 0, 102, 0, 0, 0, 75, 0, 0, 0, 0, 0]"

subsection \<open>Written records and the entries read from them\<close>

text \<open>
  \<open>rec\<close> is a central directory record that the writer makes for the entry \<open>f\<close> without
  a password, and \<open>e\<close> is a file the reader makes of such a record.
\<close>

definition cd_record_for :: "zip_env \<Rightarrow> zip_file_spec \<Rightarrow> byte list \<Rightarrow> bool" where
  "cd_record_for env f rec \<longleftrightarrow>
     (\<exists>nm out lo. name f = Some nm \<and> rec = plain_cd_record env f nm out lo)"

definition entry_for :: "charset_env \<Rightarrow> zip_file_spec \<Rightarrow> archive_file \<Rightarrow> bool" where
  "entry_for cenv f e \<longleftrightarrow>
     (\<exists>nm. name f = Some nm
        \<and> fname e = fname (rspamd_archive_file_try_utf cenv new_file (map byte_of_char nm))
        \<and> uncompressed_size e = ucast (word_of_nat (length (data f)) :: 32 word)
        \<and> \<not> file_encrypted e)"

section \<open>The 7-Zip reader\<close>

text \<open>
  What the C text leaves to the machine and to the libraries is a parameter: the
  two parameters of the integer decoder (\<open>target_before\<close> is its \<open>junk\<close> and
  \<open>shift_past_width\<close> its \<open>wide_shr\<close>), the byte \<open>stray_byte i\<close> found at an offset
  \<open>i\<close> behind the buffer, the content \<open>stray_nstreams i\<close> of an element of
  \<open>folder_nstreams\<close> that was never written, the address of the buffer, the
  \<open>allocated_len\<close> of a \<open>g_string_sized_new\<close>, and libarchive, which gives the
  names of the entries and \<open>archive_read_has_encrypted_entries\<close>, or \<open>None\<close> when
  \<open>archive_read_open_memory\<close> fails.
\<close>

record sz_env =
  target_before :: "64 word"
  shift_past_width :: "64 word \<Rightarrow> nat \<Rightarrow> 64 word"
  stray_byte :: "nat \<Rightarrow> byte"
  stray_nstreams :: "nat \<Rightarrow> 32 word"
  buf_address :: nat
  allocated_len :: "nat \<Rightarrow> nat"
  archive_read_7zip :: "byte list \<Rightarrow> (byte list list \<times> bool) option"

abbreviation kEnd :: byte where "kEnd \<equiv> 0x00"
abbreviation kHeader :: byte where "kHeader \<equiv> 0x01"
abbreviation kArchiveProperties :: byte where "kArchiveProperties \<equiv> 0x02"
abbreviation kAdditionalStreamsInfo :: byte where "kAdditionalStreamsInfo \<equiv> 0x03"
abbreviation kMainStreamsInfo :: byte where "kMainStreamsInfo \<equiv> 0x04"
abbreviation kFilesInfo :: byte where "kFilesInfo \<equiv> 0x05"
abbreviation kPackInfo :: byte where "kPackInfo \<equiv> 0x06"
abbreviation kUnPackInfo :: byte where "kUnPackInfo \<equiv> 0x07"
abbreviation kSubStreamsInfo :: byte where "kSubStreamsInfo \<equiv> 0x08"
abbreviation kSize :: byte where "kSize \<equiv> 0x09"
abbreviation kCRC :: byte where "kCRC \<equiv> 0x0A"
abbreviation kFolder :: byte where "kFolder \<equiv> 0x0B"
abbreviation kCodersUnPackSize :: byte where "kCodersUnPackSize \<equiv> 0x0C"
abbreviation kNumUnPackStream :: byte where "kNumUnPackStream \<equiv> 0x0D"
abbreviation kEmptyStream :: byte where "kEmptyStream \<equiv> 0x0E"
abbreviation kEmptyFile :: byte where "kEmptyFile \<equiv> 0x0F"
abbreviation kAnti :: byte where "kAnti \<equiv> 0x10"
abbreviation kName :: byte where "kName \<equiv> 0x11"
abbreviation kCTime :: byte where "kCTime \<equiv> 0x12"
abbreviation kATime :: byte where "kATime \<equiv> 0x13"
abbreviation kMTime :: byte where "kMTime \<equiv> 0x14"
abbreviation kWinAttributes :: byte where "kWinAttributes \<equiv> 0x15"
abbreviation kEncodedHeader :: byte where "kEncodedHeader \<equiv> 0x17"
abbreviation kDummy :: byte where "kDummy \<equiv> 0x19"

subsection \<open>The cursor\<close>

text \<open>
  \<open>SZ_SKIP_BYTES(n)\<close> and \<open>SZ_READ_VINT(var)\<close> at the cursor \<open>p\<close>, with \<open>end\<close> the length
  of the buffer: \<open>None\<close> is their \<open>return NULL\<close>.
\<close>

definition SZ_SKIP_BYTES :: "byte list \<Rightarrow> nat \<Rightarrow> nat \<Rightarrow> nat option" where
  "SZ_SKIP_BYTES buf p n = (if n \<le> length buf - p then Some (p + n) else None)"

definition SZ_READ_VINT :: "sz_env \<Rightarrow> byte list \<Rightarrow> nat \<Rightarrow> (64 word \<times> nat) option" where
  "SZ_READ_VINT env buf p =
     (case rspamd_archive_7zip_read_vint (target_before env) (shift_past_width env) (drop p buf) of
        None \<Rightarrow> None
      | Some (v, r) \<Rightarrow> Some (v, p + r))"

text \<open>\<open>for (i = 0; i < n; i++) { SZ_SKIP_BYTES(k); }\<close>\<close>

fun sz_skip_times :: "byte list \<Rightarrow> nat \<Rightarrow> nat \<Rightarrow> nat \<Rightarrow> nat option" where
  "sz_skip_times buf k 0 p = Some p"
| "sz_skip_times buf k (Suc n) p =
     (case SZ_SKIP_BYTES buf p k of
        None \<Rightarrow> None
      | Some p' \<Rightarrow> sz_skip_times buf k n p')"

text \<open>\<open>for (i = 0; i < n; i++) { SZ_READ_VINT(tmp); }\<close>\<close>

fun sz_read_vints :: "sz_env \<Rightarrow> byte list \<Rightarrow> nat \<Rightarrow> nat \<Rightarrow> nat option" where
  "sz_read_vints env buf 0 p = Some p"
| "sz_read_vints env buf (Suc n) p =
     (case SZ_READ_VINT env buf p of
        None \<Rightarrow> None
      | Some (v, p') \<Rightarrow> sz_read_vints env buf n p')"

lemma sz_vint_loop_consumed:
  "sz_vint_loop junk shr t buf cur_bit intlen = Some (v, r) \<Longrightarrow> 0 < r \<and> r \<le> length buf"
  by (induction junk shr t buf cur_bit intlen rule: sz_vint_loop.induct)
    (subst (asm) sz_vint_loop.simps, auto split: if_splits)

lemma read_vint_consumed:
  "rspamd_archive_7zip_read_vint junk shr buf = Some (v, r) \<Longrightarrow> 0 < r \<and> r \<le> length buf"
  by (auto simp: rspamd_archive_7zip_read_vint_def split: list.splits if_splits
      dest: sz_vint_loop_consumed)

lemma SZ_READ_VINT_advances:
  "SZ_READ_VINT env buf p = Some (v, p') \<Longrightarrow> p < p' \<and> p' \<le> length buf"
  by (auto simp: SZ_READ_VINT_def split: option.splits dest!: read_vint_consumed)

lemma SZ_SKIP_BYTES_advances:
  "SZ_SKIP_BYTES buf p n = Some p' \<Longrightarrow> p' = p + n"
  by (auto simp: SZ_SKIP_BYTES_def split: if_splits)

lemma sz_skip_times_advances: "sz_skip_times buf k n p = Some p' \<Longrightarrow> p \<le> p'"
  by (induction n arbitrary: p) (force split: option.splits dest: SZ_SKIP_BYTES_advances)+

lemma sz_read_vints_advances: "sz_read_vints env buf n p = Some p' \<Longrightarrow> p \<le> p'"
  by (induction n arbitrary: p) (force split: option.splits dest!: SZ_READ_VINT_advances)+

text \<open>
  The same loop with a counter \<open>unsigned int j\<close> and a bound of \<open>2\<^sup>3\<^sup>2\<close> or more: the
  test \<open>j < bound\<close> never fails, and the loop is left by the \<open>return NULL\<close> of
  \<open>SZ_READ_VINT\<close> only.
\<close>

function sz_read_vints_unbounded :: "sz_env \<Rightarrow> byte list \<Rightarrow> nat \<Rightarrow> nat option" where
  "sz_read_vints_unbounded env buf p =
     (case SZ_READ_VINT env buf p of
        None \<Rightarrow> None
      | Some (v, p') \<Rightarrow> sz_read_vints_unbounded env buf p')"
  by pat_completeness auto
termination
  by (relation "measure (\<lambda>(env, buf, p). length buf - p)")
    (auto dest!: SZ_READ_VINT_advances)

declare sz_read_vints_unbounded.simps [simp del]

subsection \<open>Bit vectors and digests\<close>

text \<open>
  \<open>rspamd_7zip_read_bits\<close> with \<open>nbits - i\<close> turns left. The byte \<open>*p\<close> is read before
  \<open>SZ_SKIP_BYTES(1)\<close> tests that it is there, and used after the test only.
\<close>

fun rspamd_7zip_read_bits ::
  "byte list \<Rightarrow> nat \<Rightarrow> nat \<Rightarrow> byte \<Rightarrow> byte \<Rightarrow> 32 word \<Rightarrow> (nat \<times> 32 word) option" where
  "rspamd_7zip_read_bits buf 0 p msk avail bits_set = Some (p, bits_set)"
| "rspamd_7zip_read_bits buf (Suc n) p msk avail bits_set =
     (if msk = 0 then
        (case SZ_SKIP_BYTES buf p 1 of
           None \<Rightarrow> None
         | Some p' \<Rightarrow>
             rspamd_7zip_read_bits buf n p' 0x40 (buf ! p)
               (if buf ! p AND 0x80 \<noteq> 0 then bits_set + 1 else bits_set))
      else rspamd_7zip_read_bits buf n p (drop_bit 1 msk) avail
             (if avail AND msk \<noteq> 0 then bits_set + 1 else bits_set))"

text \<open>
  \<open>rspamd_7zip_read_digest\<close>: the cursor and \<open>num_defined\<close>, an \<open>unsigned int\<close> that
  takes the low 32 bits of \<open>num_streams\<close>.
\<close>

definition rspamd_7zip_read_digest :: "byte list \<Rightarrow> nat \<Rightarrow> 64 word \<Rightarrow> (nat \<times> 32 word) option" where
  "rspamd_7zip_read_digest buf p num_streams =
     (case SZ_SKIP_BYTES buf p 1 of
        None \<Rightarrow> None
      | Some p1 \<Rightarrow>
          (case (if buf ! p \<noteq> 0 then Some (p1, ucast num_streams)
                 else if num_streams > 8192 then None
                 else rspamd_7zip_read_bits buf (unat num_streams) p1 0 0 0) of
             None \<Rightarrow> None
           | Some (p2, num_defined) \<Rightarrow>
               (case sz_skip_times buf 4 (unat num_defined) p2 of
                  None \<Rightarrow> None
                | Some p3 \<Rightarrow> Some (p3, num_defined))))"

lemma read_bits_advances:
  "rspamd_7zip_read_bits buf n p msk avail bs = Some (p', bs') \<Longrightarrow> p \<le> p'"
  by (induction n arbitrary: p msk avail bs)
    (force split: option.splits if_splits dest!: SZ_SKIP_BYTES_advances)+

lemma read_digest_advances:
  "rspamd_7zip_read_digest buf p n = Some (p', d) \<Longrightarrow> p \<le> p'"
  by (auto simp: rspamd_7zip_read_digest_def split: option.splits if_splits
      dest!: SZ_SKIP_BYTES_advances read_bits_advances sz_skip_times_advances)

subsection \<open>PackInfo\<close>

text \<open>The loop \<open>while (p != NULL && p < end)\<close> of \<open>rspamd_7zip_read_pack_info\<close>.\<close>

function sz_pack_info_loop :: "sz_env \<Rightarrow> byte list \<Rightarrow> 64 word \<Rightarrow> nat \<Rightarrow> nat option" where
  "sz_pack_info_loop env buf pack_streams p =
     (if p < length buf then
        (if buf ! p = kSize then
           (case sz_read_vints env buf (unat pack_streams) (p + 1) of
              None \<Rightarrow> None
            | Some p' \<Rightarrow> sz_pack_info_loop env buf pack_streams p')
         else if buf ! p = kCRC then
           (case rspamd_7zip_read_digest buf (p + 1) pack_streams of
              None \<Rightarrow> None
            | Some (p', num_digests) \<Rightarrow> sz_pack_info_loop env buf pack_streams p')
         else if buf ! p = kEnd then Some (p + 1)
         else None)
      else Some p)"
  by pat_completeness auto
termination
  by (relation "measure (\<lambda>(env, buf, n, p). length buf - p)")
    (auto dest!: sz_read_vints_advances read_digest_advances)

declare sz_pack_info_loop.simps [simp del]

definition rspamd_7zip_read_pack_info :: "sz_env \<Rightarrow> byte list \<Rightarrow> nat \<Rightarrow> nat option" where
  "rspamd_7zip_read_pack_info env buf p =
     (case SZ_READ_VINT env buf p of
        None \<Rightarrow> None
      | Some (pack_pos, p1) \<Rightarrow>
          (case SZ_READ_VINT env buf p1 of
             None \<Rightarrow> None
           | Some (pack_streams, p2) \<Rightarrow> sz_pack_info_loop env buf pack_streams p2))"

lemma pack_info_loop_advances: "sz_pack_info_loop env buf n p = Some p' \<Longrightarrow> p \<le> p'"
proof (induction env buf n p rule: sz_pack_info_loop.induct)
  case (1 env buf n p)
  from "1.prems" [unfolded sz_pack_info_loop.simps [of env buf n p]] "1.IH" show ?case
    by (fastforce split: if_splits option.splits
        dest: sz_read_vints_advances read_digest_advances)
qed

lemma read_pack_info_advances: "rspamd_7zip_read_pack_info env buf p = Some p' \<Longrightarrow> p \<le> p'"
  by (auto simp: rspamd_7zip_read_pack_info_def split: option.splits
      dest!: SZ_READ_VINT_advances pack_info_loop_advances)

subsection \<open>Folders and coders\<close>

text \<open>
  The codec id of a coder: \<open>tmp <<= 8; tmp += p[j]\<close> for the \<open>sz\<close> bytes at the cursor,
  which are read before \<open>SZ_SKIP_BYTES(sz)\<close> tests that they are there.
\<close>

definition sz_codec_id :: "sz_env \<Rightarrow> byte list \<Rightarrow> nat \<Rightarrow> nat \<Rightarrow> 64 word" where
  "sz_codec_id env buf p sz =
     foldl (\<lambda>tmp j. push_bit 8 tmp
              + ucast (if p + j < length buf then buf ! (p + j) else stray_byte env (p + j)))
       0 [0..<sz]"

definition IS_SZ_ENCRYPTED :: "64 word \<Rightarrow> bool" where
  "IS_SZ_ENCRYPTED codec_id \<longleftrightarrow>
     codec_id = 0x06F10101 \<or> codec_id = 0x06F10303 \<or> codec_id = 0x06F10701"

text \<open>
  The reader sets \<open>RSPAMD_ARCHIVE_ENCRYPTED\<close> in the archive while it reads a coder,
  and the flag stays when it gives up later: the functions on the way from a coder
  to the section take the flag \<open>enc\<close> and return it beside their result.

  The loop over the coders of a folder, with \<open>ncoders - i\<close> turns left: the cursor,
  \<open>ninstreams\<close> and \<open>noutstreams\<close>.
\<close>

fun sz_folder_coders ::
  "sz_env \<Rightarrow> byte list \<Rightarrow> nat \<Rightarrow> nat \<Rightarrow> 64 word \<Rightarrow> 64 word \<Rightarrow> bool
     \<Rightarrow> (nat \<times> 64 word \<times> 64 word) option \<times> bool" where
  "sz_folder_coders env buf 0 p ninstreams noutstreams enc =
     (Some (p, ninstreams, noutstreams), enc)"
| "sz_folder_coders env buf (Suc n) p ninstreams noutstreams enc =
     (if p < length buf then
        (case SZ_SKIP_BYTES buf (p + 1) (unat (buf ! p AND 0xF)) of
           None \<Rightarrow>
             (None, enc \<or> IS_SZ_ENCRYPTED (sz_codec_id env buf (p + 1) (unat (buf ! p AND 0xF))))
         | Some p1 \<Rightarrow>
            (case (if bit (buf ! p) 4 then
                     (case SZ_READ_VINT env buf p1 of
                        None \<Rightarrow> None
                      | Some (ins, p2) \<Rightarrow>
                         (case SZ_READ_VINT env buf p2 of
                            None \<Rightarrow> None
                          | Some (outs, p3) \<Rightarrow> Some (p3, ninstreams + ins, noutstreams + outs)))
                   else Some (p1, ninstreams + 1, noutstreams + 1)) of
               None \<Rightarrow>
                 (None, enc \<or> IS_SZ_ENCRYPTED (sz_codec_id env buf (p + 1) (unat (buf ! p AND 0xF))))
             | Some (p4, ninstreams', noutstreams') \<Rightarrow>
                (case (if bit (buf ! p) 5 then
                         (case SZ_READ_VINT env buf p4 of
                            None \<Rightarrow> None
                          | Some (attrs, p5) \<Rightarrow> SZ_SKIP_BYTES buf p5 (unat attrs))
                       else Some p4) of
                   None \<Rightarrow>
                     (None, enc \<or> IS_SZ_ENCRYPTED (sz_codec_id env buf (p + 1) (unat (buf ! p AND 0xF))))
                 | Some p6 \<Rightarrow>
                     sz_folder_coders env buf n p6 ninstreams' noutstreams'
                       (enc \<or> IS_SZ_ENCRYPTED (sz_codec_id env buf (p + 1) (unat (buf ! p AND 0xF)))))))
      else (Some (p, ninstreams, noutstreams), enc))"

text \<open>The bind pairs: \<open>for (i = 0; i < noutstreams - 1; i++)\<close> with two integers each.\<close>

fun sz_bind_pairs :: "sz_env \<Rightarrow> byte list \<Rightarrow> nat \<Rightarrow> nat \<Rightarrow> nat option" where
  "sz_bind_pairs env buf 0 p = Some p"
| "sz_bind_pairs env buf (Suc n) p =
     (case SZ_READ_VINT env buf p of
        None \<Rightarrow> None
      | Some (v, p1) \<Rightarrow>
         (case SZ_READ_VINT env buf p1 of
            None \<Rightarrow> None
          | Some (w, p2) \<Rightarrow> sz_bind_pairs env buf n p2))"

text \<open>
  \<open>rspamd_7zip_read_folder\<close>: the cursor, \<open>*pnstreams\<close> and \<open>*ndigests\<close>, which are
  \<open>unsigned int\<close>. \<open>npacked\<close> is an \<open>int64_t\<close>.
\<close>

definition rspamd_7zip_read_folder ::
  "sz_env \<Rightarrow> byte list \<Rightarrow> nat \<Rightarrow> 32 word \<Rightarrow> bool \<Rightarrow> (nat \<times> 32 word \<times> 32 word) option \<times> bool" where
  "rspamd_7zip_read_folder env buf p ndigests enc =
     (case SZ_READ_VINT env buf p of
        None \<Rightarrow> (None, enc)
      | Some (ncoders, p1) \<Rightarrow>
         (case sz_folder_coders env buf (unat ncoders) p1 0 0 enc of
            (r, enc') \<Rightarrow>
              (case r of
                 None \<Rightarrow> (None, enc')
               | Some (p2, ninstreams, noutstreams) \<Rightarrow>
                  (case (if noutstreams > 1
                         then sz_bind_pairs env buf (unat (noutstreams - 1)) p2
                         else Some p2) of
                     None \<Rightarrow> (None, enc')
                   | Some p3 \<Rightarrow>
                      (case (if 1 <s ninstreams - noutstreams + 1
                             then sz_read_vints env buf (unat (ninstreams - noutstreams + 1)) p3
                             else Some p3) of
                         None \<Rightarrow> (None, enc')
                       | Some p4 \<Rightarrow>
                           (Some (p4, ucast noutstreams,
                                  ndigests + ucast (ninstreams - noutstreams + 1)), enc'))))))"

lemma folder_coders_advances:
  "sz_folder_coders env buf n p i out enc = (Some (p', i', out'), enc') \<Longrightarrow> p \<le> p'"
proof (induction n arbitrary: p i out enc)
  case 0
  then show ?case by simp
next
  case (Suc n)
  from Suc.prems Suc.IH show ?case
    by (fastforce split: if_splits option.splits
        dest: SZ_SKIP_BYTES_advances SZ_READ_VINT_advances)
qed

lemma bind_pairs_advances: "sz_bind_pairs env buf n p = Some p' \<Longrightarrow> p \<le> p'"
  by (induction n arbitrary: p) (force split: option.splits dest!: SZ_READ_VINT_advances)+

lemma read_folder_advances:
  "rspamd_7zip_read_folder env buf p nd enc = (Some (p', ns, nd'), enc') \<Longrightarrow> p < p'"
  by (fastforce simp: rspamd_7zip_read_folder_def split: option.splits if_splits prod.splits
      dest: SZ_READ_VINT_advances folder_coders_advances bind_pairs_advances
        sz_read_vints_advances)

subsection \<open>CodersInfo\<close>

text \<open>
  The folders read in line, with \<open>num_folders - i\<close> turns left: the cursor, the
  elements of \<open>folder_nstreams\<close> written so far, and \<open>num_digests\<close>.
\<close>

fun sz_folders ::
  "sz_env \<Rightarrow> byte list \<Rightarrow> nat \<Rightarrow> nat \<Rightarrow> 32 word list \<Rightarrow> 32 word \<Rightarrow> bool
     \<Rightarrow> (nat \<times> 32 word list \<times> 32 word) option \<times> bool" where
  "sz_folders env buf 0 p ns num_digests enc = (Some (p, ns, num_digests), enc)"
| "sz_folders env buf (Suc n) p ns num_digests enc =
     (if p < length buf then
        (case rspamd_7zip_read_folder env buf p num_digests enc of
           (r, enc') \<Rightarrow>
             (case r of
                None \<Rightarrow> (None, enc')
              | Some (p', nstreams, num_digests') \<Rightarrow>
                  sz_folders env buf n p' (ns @ [nstreams]) num_digests' enc'))
      else (Some (p, ns, num_digests), enc))"

text \<open>
  The unpacked sizes, with \<open>num_folders - i\<close> turns left. \<open>folder_nstreams\<close> is \<open>None\<close>
  for \<open>NULL\<close>, and otherwise the elements that were written.
\<close>

fun sz_unpack_sizes ::
  "sz_env \<Rightarrow> byte list \<Rightarrow> 32 word list option \<Rightarrow> nat \<Rightarrow> nat \<Rightarrow> nat \<Rightarrow> nat option" where
  "sz_unpack_sizes env buf folder_nstreams 0 i p = Some p"
| "sz_unpack_sizes env buf folder_nstreams (Suc n) i p =
     (if p < length buf then
        (case folder_nstreams of
           None \<Rightarrow> sz_unpack_sizes env buf folder_nstreams n (i + 1) p
         | Some ns \<Rightarrow>
            (case sz_read_vints env buf
                    (unat (if i < length ns then ns ! i else stray_nstreams env i)) p of
               None \<Rightarrow> None
             | Some p' \<Rightarrow> sz_unpack_sizes env buf folder_nstreams n (i + 1) p'))
      else Some p)"

lemma folders_advances:
  "sz_folders env buf n p ns nd enc = (Some (p', ns', nd'), enc') \<Longrightarrow> p \<le> p'"
proof (induction n arbitrary: p ns nd enc)
  case 0
  then show ?case by simp
next
  case (Suc n)
  from Suc.prems Suc.IH show ?case
    by (fastforce split: if_splits option.splits prod.splits dest: read_folder_advances)
qed

lemma unpack_sizes_advances: "sz_unpack_sizes env buf fns n i p = Some p' \<Longrightarrow> p \<le> p'"
proof (induction n arbitrary: p i)
  case 0
  then show ?case by simp
next
  case (Suc n)
  from Suc.prems Suc.IH show ?case
    by (fastforce split: if_splits option.splits dest: sz_read_vints_advances)
qed

text \<open>
  The loop of \<open>rspamd_7zip_read_coders_info\<close>. The result is the cursor,
  \<open>*pnum_folders\<close> and \<open>*pnum_nodigest\<close>; \<open>g_malloc\<close> of no bytes is \<open>NULL\<close>.
\<close>

function sz_coders_info_loop ::
  "sz_env \<Rightarrow> byte list \<Rightarrow> nat \<Rightarrow> 64 word \<Rightarrow> 32 word list option \<Rightarrow> 32 word \<Rightarrow> 32 word \<Rightarrow> bool
     \<Rightarrow> (nat \<times> 32 word \<times> 32 word) option \<times> bool" where
  "sz_coders_info_loop env buf p num_folders folder_nstreams num_digests digests_read enc =
     (if p < length buf then
        (if buf ! p = kFolder then
           (case SZ_READ_VINT env buf (p + 1) of
              None \<Rightarrow> (None, enc)
            | Some (num_folders', p1) \<Rightarrow>
               (case SZ_SKIP_BYTES buf p1 1 of
                  None \<Rightarrow> (None, enc)
                | Some p2 \<Rightarrow>
                   if buf ! p1 \<noteq> 0 then
                     (case SZ_READ_VINT env buf p2 of
                        None \<Rightarrow> (None, enc)
                      | Some (tmp, p3) \<Rightarrow>
                          sz_coders_info_loop env buf p3 num_folders' folder_nstreams
                            num_digests digests_read enc)
                   else if num_folders' > 8192 then (None, enc)
                   else
                     (case sz_folders env buf (unat num_folders') p2 [] num_digests enc of
                        (r, enc') \<Rightarrow>
                          (case r of
                             None \<Rightarrow> (None, enc')
                           | Some (p3, ns, num_digests') \<Rightarrow>
                               sz_coders_info_loop env buf p3 num_folders'
                                 (if num_folders' = 0 then None else Some ns)
                                 num_digests' digests_read enc'))))
         else if buf ! p = kCodersUnPackSize then
           (case sz_unpack_sizes env buf folder_nstreams (unat num_folders) 0 (p + 1) of
              None \<Rightarrow> (None, enc)
            | Some p1 \<Rightarrow>
                sz_coders_info_loop env buf p1 num_folders folder_nstreams
                  num_digests digests_read enc)
         else if buf ! p = kCRC then
           (case rspamd_7zip_read_digest buf (p + 1) (ucast num_digests) of
              None \<Rightarrow> (None, enc)
            | Some (p1, digests_read') \<Rightarrow>
                sz_coders_info_loop env buf p1 num_folders folder_nstreams
                  num_digests digests_read' enc)
         else if buf ! p = kEnd then
           (Some (p + 1, ucast num_folders, num_digests - digests_read), enc)
         else (None, enc))
      else (Some (p, ucast num_folders, num_digests - digests_read), enc))"
  by pat_completeness auto
termination
  by (relation "measure (\<lambda>(env, buf, p, r). length buf - p)")
    (auto dest!: SZ_READ_VINT_advances SZ_SKIP_BYTES_advances folders_advances [OF sym]
      unpack_sizes_advances read_digest_advances)

declare sz_coders_info_loop.simps [simp del]

definition rspamd_7zip_read_coders_info ::
  "sz_env \<Rightarrow> byte list \<Rightarrow> nat \<Rightarrow> bool \<Rightarrow> (nat \<times> 32 word \<times> 32 word) option \<times> bool" where
  "rspamd_7zip_read_coders_info env buf p enc = sz_coders_info_loop env buf p 0 None 0 0 enc"

lemma coders_info_loop_advances:
  "sz_coders_info_loop env buf p nf fns nd dr enc = (Some (p', nf', un), enc') \<Longrightarrow> p \<le> p'"
proof (induction env buf p nf fns nd dr enc rule: sz_coders_info_loop.induct)
  case (1 env buf p nf fns nd dr enc)
  from "1.prems" [unfolded sz_coders_info_loop.simps [of env buf p nf fns nd dr enc]] "1.IH"
  show ?case
    by (fastforce split: if_splits option.splits prod.splits
        dest: SZ_READ_VINT_advances SZ_SKIP_BYTES_advances folders_advances
          unpack_sizes_advances read_digest_advances)
qed

subsection \<open>SubStreamsInfo\<close>

text \<open>\<open>for (i = 0; i < num_folders; i++) { SZ_READ_VINT(tmp); folder_nstreams[i] = tmp; }\<close>\<close>

fun sz_read_vint_list :: "sz_env \<Rightarrow> byte list \<Rightarrow> nat \<Rightarrow> nat \<Rightarrow> (64 word list \<times> nat) option" where
  "sz_read_vint_list env buf 0 p = Some ([], p)"
| "sz_read_vint_list env buf (Suc n) p =
     (case SZ_READ_VINT env buf p of
        None \<Rightarrow> None
      | Some (v, p1) \<Rightarrow>
         (case sz_read_vint_list env buf n p1 of
            None \<Rightarrow> None
          | Some (vs, p2) \<Rightarrow> Some (v # vs, p2)))"

text \<open>
  The sizes of the substreams of each folder. The counter \<open>j\<close> of the inner loop is an
  \<open>unsigned int\<close> and the bound a \<open>uint64_t\<close>.
\<close>

fun sz_substream_sizes :: "sz_env \<Rightarrow> byte list \<Rightarrow> 64 word list \<Rightarrow> nat \<Rightarrow> nat option" where
  "sz_substream_sizes env buf [] p = Some p"
| "sz_substream_sizes env buf (n # ns) p =
     (case (if n < 2 ^ 32 then sz_read_vints env buf (unat n) p
            else sz_read_vints_unbounded env buf p) of
        None \<Rightarrow> None
      | Some p' \<Rightarrow> sz_substream_sizes env buf ns p')"

lemma read_vint_list_advances: "sz_read_vint_list env buf n p = Some (vs, p') \<Longrightarrow> p \<le> p'"
proof (induction n arbitrary: p vs)
  case 0
  then show ?case by simp
next
  case (Suc n)
  from Suc.prems Suc.IH show ?case
    by (fastforce split: option.splits dest: SZ_READ_VINT_advances)
qed

lemma read_vints_unbounded_advances: "sz_read_vints_unbounded env buf p = Some p' \<Longrightarrow> p \<le> p'"
proof (induction env buf p rule: sz_read_vints_unbounded.induct)
  case (1 env buf p)
  from "1.prems" [unfolded sz_read_vints_unbounded.simps [of env buf p]] "1.IH" show ?case
    by (fastforce split: option.splits dest: SZ_READ_VINT_advances)
qed

lemma substream_sizes_advances: "sz_substream_sizes env buf ns p = Some p' \<Longrightarrow> p \<le> p'"
proof (induction ns arbitrary: p)
  case Nil
  then show ?case by simp
next
  case (Cons n ns)
  from Cons.prems Cons.IH show ?case
    by (fastforce split: option.splits if_splits
        dest: sz_read_vints_advances read_vints_unbounded_advances)
qed

text \<open>The loop of \<open>rspamd_7zip_read_substreams_info\<close>, with the array \<open>folder_nstreams\<close>.\<close>

function sz_substreams_info_loop ::
  "sz_env \<Rightarrow> byte list \<Rightarrow> 32 word \<Rightarrow> 32 word \<Rightarrow> 64 word list \<Rightarrow> nat \<Rightarrow> nat option" where
  "sz_substreams_info_loop env buf num_folders num_nodigest folder_nstreams p =
     (if p < length buf then
        (if buf ! p = kNumUnPackStream then
           (case sz_read_vint_list env buf (unat num_folders) (p + 1) of
              None \<Rightarrow> None
            | Some (vs, p1) \<Rightarrow>
                sz_substreams_info_loop env buf num_folders num_nodigest vs p1)
         else if buf ! p = kCRC then
           (case rspamd_7zip_read_digest buf (p + 1) (ucast num_nodigest) of
              None \<Rightarrow> None
            | Some (p1, digests_read) \<Rightarrow>
                sz_substreams_info_loop env buf num_folders num_nodigest folder_nstreams p1)
         else if buf ! p = kSize then
           (case sz_substream_sizes env buf folder_nstreams (p + 1) of
              None \<Rightarrow> None
            | Some p1 \<Rightarrow>
                sz_substreams_info_loop env buf num_folders num_nodigest folder_nstreams p1)
         else if buf ! p = kEnd then Some (p + 1)
         else None)
      else Some p)"
  by pat_completeness auto
termination
  by (relation "measure (\<lambda>(env, buf, nf, nd, fns, p). length buf - p)")
    (auto dest!: read_vint_list_advances read_digest_advances substream_sizes_advances)

declare sz_substreams_info_loop.simps [simp del]

definition rspamd_7zip_read_substreams_info ::
  "sz_env \<Rightarrow> byte list \<Rightarrow> nat \<Rightarrow> 32 word \<Rightarrow> 32 word \<Rightarrow> nat option" where
  "rspamd_7zip_read_substreams_info env buf p num_folders num_nodigest =
     (if num_folders > 8192 then None
      else sz_substreams_info_loop env buf num_folders num_nodigest
             (replicate (unat num_folders) 0) p)"

lemma substreams_info_loop_advances:
  "sz_substreams_info_loop env buf nf nd fns p = Some p' \<Longrightarrow> p \<le> p'"
proof (induction env buf nf nd fns p rule: sz_substreams_info_loop.induct)
  case (1 env buf nf nd fns p)
  from "1.prems" [unfolded sz_substreams_info_loop.simps [of env buf nf nd fns p]] "1.IH"
  show ?case
    by (fastforce split: if_splits option.splits
        dest: read_vint_list_advances read_digest_advances substream_sizes_advances)
qed

lemma read_substreams_info_advances:
  "rspamd_7zip_read_substreams_info env buf p nf nd = Some p' \<Longrightarrow> p \<le> p'"
  by (auto simp: rspamd_7zip_read_substreams_info_def split: if_splits
      dest: substreams_info_loop_advances)

subsection \<open>MainStreamsInfo\<close>

text \<open>
  The loop of \<open>rspamd_7zip_read_main_streams_info\<close>, with \<open>num_folders\<close> and
  \<open>unknown_digests\<close>.
\<close>

function sz_main_streams_info_loop ::
  "sz_env \<Rightarrow> byte list \<Rightarrow> nat \<Rightarrow> 32 word \<Rightarrow> 32 word \<Rightarrow> bool \<Rightarrow> nat option \<times> bool" where
  "sz_main_streams_info_loop env buf p num_folders unknown_digests enc =
     (if p < length buf then
        (if buf ! p = kPackInfo then
           (case rspamd_7zip_read_pack_info env buf (p + 1) of
              None \<Rightarrow> (None, enc)
            | Some p1 \<Rightarrow> sz_main_streams_info_loop env buf p1 num_folders unknown_digests enc)
         else if buf ! p = kUnPackInfo then
           (case rspamd_7zip_read_coders_info env buf (p + 1) enc of
              (r, enc') \<Rightarrow>
                (case r of
                   None \<Rightarrow> (None, enc')
                 | Some (p1, num_folders', unknown_digests') \<Rightarrow>
                     sz_main_streams_info_loop env buf p1 num_folders' unknown_digests' enc'))
         else if buf ! p = kSubStreamsInfo then
           (case rspamd_7zip_read_substreams_info env buf (p + 1) num_folders unknown_digests of
              None \<Rightarrow> (None, enc)
            | Some p1 \<Rightarrow> sz_main_streams_info_loop env buf p1 num_folders unknown_digests enc)
         else if buf ! p = kEnd then (Some (p + 1), enc)
         else (None, enc))
      else (Some p, enc))"
  by pat_completeness auto
termination
  by (relation "measure (\<lambda>(env, buf, p, r). length buf - p)")
    (auto simp: rspamd_7zip_read_coders_info_def
      dest!: read_pack_info_advances coders_info_loop_advances [OF sym]
        read_substreams_info_advances)

declare sz_main_streams_info_loop.simps [simp del]

definition rspamd_7zip_read_main_streams_info ::
  "sz_env \<Rightarrow> byte list \<Rightarrow> nat \<Rightarrow> bool \<Rightarrow> nat option \<times> bool" where
  "rspamd_7zip_read_main_streams_info env buf p enc = sz_main_streams_info_loop env buf p 0 0 enc"

lemma main_streams_info_loop_advances:
  "sz_main_streams_info_loop env buf p nf un enc = (Some p', enc') \<Longrightarrow> p \<le> p'"
proof (induction env buf p nf un enc rule: sz_main_streams_info_loop.induct)
  case (1 env buf p nf un enc)
  from "1.prems" [unfolded sz_main_streams_info_loop.simps [of env buf p nf un enc]] "1.IH"
  show ?case
    by (fastforce simp: rspamd_7zip_read_coders_info_def
        split: if_splits option.splits prod.splits
        dest: read_pack_info_advances coders_info_loop_advances read_substreams_info_advances)
qed

subsection \<open>ArchiveProperties\<close>

text \<open>
  What a function that walks the sections returns: a cursor, or \<open>NULL\<close>. The model
  tells the two ways to \<open>NULL\<close> apart, which the C text does not: \<open>Final\<close> is \<open>p = NULL\<close>
  at \<open>kEnd\<close> and after libarchive has taken over, \<open>Invalid\<close> is every other \<open>NULL\<close>.
  \<open>Crash\<close> is no return at all: a pointer sum that leaves the address space, or a
  \<open>g_assert\<close> that fails.
\<close>

datatype sz_section = Section nat | Final | Invalid | Crash

text \<open>
  The loop \<open>while (proptype != 0)\<close> of \<open>rspamd_7zip_read_archive_props\<close>. The test
  \<open>p + proplen < end\<close> adds a \<open>uint64_t\<close> to a pointer.
\<close>

function sz_archive_props_loop :: "sz_env \<Rightarrow> byte list \<Rightarrow> byte \<Rightarrow> nat \<Rightarrow> sz_section" where
  "sz_archive_props_loop env buf proptype p =
     (if proptype \<noteq> 0 then
        (case SZ_READ_VINT env buf p of
           None \<Rightarrow> Invalid
         | Some (proplen, p1) \<Rightarrow>
             if 2 ^ 64 \<le> buf_address env + p1 + unat proplen then Crash
             else if p1 + unat proplen < length buf
             then sz_archive_props_loop env buf (buf ! (p1 + unat proplen)) (p1 + unat proplen + 1)
             else Invalid)
      else Section p)"
  by pat_completeness auto
termination
  by (relation "measure (\<lambda>(env, buf, t, p). length buf - p)")
    (auto dest!: SZ_READ_VINT_advances)

declare sz_archive_props_loop.simps [simp del]

definition rspamd_7zip_read_archive_props :: "sz_env \<Rightarrow> byte list \<Rightarrow> nat \<Rightarrow> sz_section" where
  "rspamd_7zip_read_archive_props env buf p =
     (case SZ_SKIP_BYTES buf p 1 of
        None \<Rightarrow> Invalid
      | Some p1 \<Rightarrow> sz_archive_props_loop env buf (buf ! p) p1)"

lemma archive_props_loop_advances:
  "sz_archive_props_loop env buf t p = Section p' \<Longrightarrow> p \<le> p'"
proof (induction env buf t p rule: sz_archive_props_loop.induct)
  case (1 env buf t p)
  from "1.prems" [unfolded sz_archive_props_loop.simps [of env buf t p]] "1.IH"
  show ?case
    by (fastforce split: if_splits option.splits dest: SZ_READ_VINT_advances)
qed

lemma read_archive_props_advances:
  "rspamd_7zip_read_archive_props env buf p = Section p' \<Longrightarrow> p < p'"
  by (fastforce simp: rspamd_7zip_read_archive_props_def split: option.splits
      dest: SZ_SKIP_BYTES_advances archive_props_loop_advances)

subsection \<open>File names\<close>

text \<open>
  ICU's \<open>U8_APPEND(s, i, capacity, c, isError)\<close> with \<open>i\<close> the length of \<open>s\<close>: \<open>None\<close> is
  \<open>isError\<close>.
\<close>

definition U8_APPEND :: "byte list \<Rightarrow> nat \<Rightarrow> 32 word \<Rightarrow> byte list option" where
  "U8_APPEND s capacity c =
     (if c \<le> 0x7f then Some (s @ [ucast c])
      else if c \<le> 0x7ff \<and> length s + 1 < capacity then
        Some (s @ [ucast (drop_bit 6 c) OR 0xC0, ucast (c AND 0x3F) OR 0x80])
      else if (c \<le> 0xd7ff \<or> (0xe000 \<le> c \<and> c \<le> 0xffff)) \<and> length s + 2 < capacity then
        Some (s @ [ucast (drop_bit 12 c) OR 0xE0, ucast (drop_bit 6 c AND 0x3F) OR 0x80,
                   ucast (c AND 0x3F) OR 0x80])
      else if 0xffff < c \<and> c \<le> 0x10ffff \<and> length s + 3 < capacity then
        Some (s @ [ucast (drop_bit 18 c) OR 0xF0, ucast (drop_bit 12 c AND 0x3F) OR 0x80,
                   ucast (drop_bit 6 c AND 0x3F) OR 0x80, ucast (c AND 0x3F) OR 0x80])
      else None)"

text \<open>\<open>if (wc > 0) { U8_APPEND(...); }\<close> with \<open>wc\<close> a \<open>UChar32\<close>, which is signed.\<close>

definition sz_put :: "nat \<Rightarrow> 32 word \<Rightarrow> byte list \<Rightarrow> byte list option" where
  "sz_put capacity wc res = (if 0 <s wc then U8_APPEND res capacity wc else Some res)"

text \<open>
  The loop \<open>while (src_pos < len)\<close> of \<open>rspamd_7zip_ucs2_to_utf8\<close> on the 16-bit units
  that are left, with ICU's \<open>U16_NEXT\<close>.
\<close>

fun sz_ucs2_loop :: "nat \<Rightarrow> 16 word list \<Rightarrow> byte list \<Rightarrow> byte list option" where
  "sz_ucs2_loop capacity [] res = Some res"
| "sz_ucs2_loop capacity [c] res = sz_put capacity (ucast c) res"
| "sz_ucs2_loop capacity (c # d # cs) res =
     (if u16_is_lead c \<and> u16_is_trail d then
        (case sz_put capacity (u16_get_supplementary c d) res of
           None \<Rightarrow> None
         | Some res' \<Rightarrow> sz_ucs2_loop capacity cs res')
      else
        (case sz_put capacity (ucast c) res of
           None \<Rightarrow> None
         | Some res' \<Rightarrow> sz_ucs2_loop capacity (d # cs) res'))"

text \<open>
  \<open>rspamd_7zip_ucs2_to_utf8\<close> on the bytes of a name: \<open>Some None\<close> is \<open>NULL\<close>, and
  \<open>None\<close> the failure of \<open>g_assert(dest_pos < res->allocated_len)\<close>.
\<close>

definition rspamd_7zip_ucs2_to_utf8 :: "sz_env \<Rightarrow> byte list \<Rightarrow> byte list option option" where
  "rspamd_7zip_ucs2_to_utf8 env nm =
     (case sz_ucs2_loop ((allocated_len env (length nm * 3 div 2 + 4 + 1) + 2 ^ 64 - 1) mod 2 ^ 64)
             (map (\<lambda>i. rd_le nm (2 * i) 2) [0..<length nm div 2]) [] of
        None \<Rightarrow> Some None
      | Some res \<Rightarrow>
          if length res < allocated_len env (length nm * 3 div 2 + 4 + 1)
          then Some (Some res) else None)"

text \<open>The search for the two zero bytes that end a name: \<open>while (tp < end - 1)\<close>.\<close>

function sz_find_terminator :: "byte list \<Rightarrow> nat \<Rightarrow> nat option" where
  "sz_find_terminator buf tp =
     (if tp + 1 < length buf then
        (if buf ! tp = 0 \<and> buf ! (tp + 1) = 0 then Some tp
         else sz_find_terminator buf (tp + 2))
      else None)"
  by pat_completeness auto
termination
  by (relation "measure (\<lambda>(buf, tp). length buf - tp)") auto

declare sz_find_terminator.simps [simp del]

lemma find_terminator_bounds:
  "sz_find_terminator buf tp = Some fend \<Longrightarrow> tp \<le> fend \<and> fend + 1 < length buf"
proof (induction buf tp rule: sz_find_terminator.induct)
  case (1 buf tp)
  from "1.prems" [unfolded sz_find_terminator.simps [of buf tp]] "1.IH" show ?case
    by (fastforce split: if_splits)
qed

subsection \<open>FilesInfo\<close>

text \<open>
  The names in line, with \<open>nfiles - i\<close> turns left: the files of the archive, and
  the cursor with \<open>True\<close> for \<open>goto end\<close>, or \<open>None\<close> when an assertion has failed.
\<close>

fun sz_names ::
  "sz_env \<Rightarrow> byte list \<Rightarrow> nat \<Rightarrow> nat \<Rightarrow> archive_file list
     \<Rightarrow> (bool \<times> nat) option \<times> archive_file list" where
  "sz_names env buf 0 p fs = (Some (False, p), fs)"
| "sz_names env buf (Suc n) p fs =
     (case sz_find_terminator buf p of
        None \<Rightarrow> (Some (True, p), fs)
      | Some fend \<Rightarrow>
          if fend - p = 0 then (Some (True, p), fs)
          else
            (case rspamd_7zip_ucs2_to_utf8 env (take (fend - p) (drop p buf)) of
               None \<Rightarrow> (None, fs)
             | Some None \<Rightarrow> sz_names env buf n (fend + 2) fs
             | Some (Some res) \<Rightarrow>
                 sz_names env buf n (fend + 2) (fs @ [new_file\<lparr>fname := Some res\<rparr>])))"

lemma names_advances: "sz_names env buf n p fs = (Some (stop, p'), fs') \<Longrightarrow> p \<le> p'"
proof (induction n arbitrary: p fs)
  case 0
  then show ?case by simp
next
  case (Suc n)
  from Suc.prems Suc.IH show ?case
    by (fastforce split: if_splits option.splits dest: find_terminator_bounds)
qed

text \<open>The properties of which the reader skips the payload.\<close>

definition sz_skipped_property :: "byte \<Rightarrow> bool" where
  "sz_skipped_property t \<longleftrightarrow>
     t = kEmptyStream \<or> t = kEmptyFile \<or> t = kAnti \<or> t = kCTime \<or> t = kATime
     \<or> t = kMTime \<or> t = kDummy \<or> t = kWinAttributes"

text \<open>The loop \<open>for (; p != NULL && p < end;)\<close> of \<open>rspamd_7zip_read_files_info\<close>.\<close>

function sz_files_info_loop ::
  "sz_env \<Rightarrow> byte list \<Rightarrow> 64 word \<Rightarrow> nat \<Rightarrow> archive_file list \<Rightarrow> sz_section \<times> archive_file list" where
  "sz_files_info_loop env buf nfiles p fs =
     (if p < length buf then
        (if buf ! p = kEnd then (Section (p + 1), fs)
         else
           (case SZ_READ_VINT env buf (p + 1) of
              None \<Rightarrow> (Invalid, fs)
            | Some (sz, p1) \<Rightarrow>
                if sz_skipped_property (buf ! p) then
                  (if sz > 0 then
                     (case SZ_SKIP_BYTES buf p1 (unat sz) of
                        None \<Rightarrow> (Invalid, fs)
                      | Some p2 \<Rightarrow> sz_files_info_loop env buf nfiles p2 fs)
                   else sz_files_info_loop env buf nfiles p1 fs)
                else if buf ! p = kName then
                  (case SZ_SKIP_BYTES buf p1 1 of
                     None \<Rightarrow> (Invalid, fs)
                   | Some p2 \<Rightarrow>
                       if buf ! p1 \<noteq> 0 then
                         (case SZ_READ_VINT env buf p2 of
                            None \<Rightarrow> (Invalid, fs)
                          | Some (tmp, p3) \<Rightarrow> sz_files_info_loop env buf nfiles p3 fs)
                       else
                         (case sz_names env buf (unat nfiles) p2 fs of
                            (r, fs') \<Rightarrow>
                              (case r of
                                 None \<Rightarrow> (Crash, fs')
                               | Some (stop, p3) \<Rightarrow>
                                   if stop then (Section p3, fs')
                                   else sz_files_info_loop env buf nfiles p3 fs')))
                else (Invalid, fs)))
      else (Section p, fs))"
  by pat_completeness auto
termination
  by (relation "measure (\<lambda>(env, buf, n, p, fs). length buf - p)")
    (auto dest!: SZ_READ_VINT_advances SZ_SKIP_BYTES_advances names_advances [OF sym])

declare sz_files_info_loop.simps [simp del]

definition rspamd_7zip_read_files_info ::
  "sz_env \<Rightarrow> byte list \<Rightarrow> nat \<Rightarrow> archive_file list \<Rightarrow> sz_section \<times> archive_file list" where
  "rspamd_7zip_read_files_info env buf p fs =
     (case SZ_READ_VINT env buf p of
        None \<Rightarrow> (Invalid, fs)
      | Some (nfiles, p1) \<Rightarrow> sz_files_info_loop env buf nfiles p1 fs)"

lemma files_info_loop_advances:
  "sz_files_info_loop env buf n p fs = (Section p', fs') \<Longrightarrow> p \<le> p'"
proof (induction env buf n p fs rule: sz_files_info_loop.induct)
  case (1 env buf n p fs)
  from "1.prems" [unfolded sz_files_info_loop.simps [of env buf n p fs]] "1.IH"
  show ?case
    by (fastforce split: if_splits option.splits prod.splits
        dest: SZ_READ_VINT_advances SZ_SKIP_BYTES_advances names_advances)
qed

lemma read_files_info_advances:
  "rspamd_7zip_read_files_info env buf p fs = (Section p', fs') \<Longrightarrow> p < p'"
  by (fastforce simp: rspamd_7zip_read_files_info_def split: option.splits
      dest: SZ_READ_VINT_advances files_info_loop_advances)

subsection \<open>The sections\<close>

text \<open>
  \<open>rspamd_7zip_read_next_section\<close>. At \<open>kEncodedHeader\<close> the files found so far are
  dropped for the entries that libarchive finds.
\<close>

definition rspamd_7zip_read_next_section ::
  "sz_env \<Rightarrow> byte list \<Rightarrow> nat \<Rightarrow> archive \<Rightarrow> sz_section \<times> archive" where
  "rspamd_7zip_read_next_section env buf p arch =
     (case SZ_SKIP_BYTES buf p 1 of
        None \<Rightarrow> (Invalid, arch)
      | Some p1 \<Rightarrow>
          if buf ! p = kHeader then (Section p1, arch)
          else if buf ! p = kEncodedHeader then
            (case archive_read_7zip env buf of
               None \<Rightarrow> (Invalid, arch)
             | Some (names, has_encrypted) \<Rightarrow>
                 (Final, arch\<lparr>files := map (\<lambda>n. new_file\<lparr>fname := Some n\<rparr>) names,
                               arch_encrypted := arch_encrypted arch \<or> has_encrypted\<rparr>))
          else if buf ! p = kArchiveProperties then
            (rspamd_7zip_read_archive_props env buf p1, arch)
          else if buf ! p = kMainStreamsInfo \<or> buf ! p = kAdditionalStreamsInfo then
            (case rspamd_7zip_read_main_streams_info env buf p1 (arch_encrypted arch) of
               (r, enc) \<Rightarrow>
                 ((case r of None \<Rightarrow> Invalid | Some p2 \<Rightarrow> Section p2),
                  arch\<lparr>arch_encrypted := enc\<rparr>))
          else if buf ! p = kFilesInfo then
            (case rspamd_7zip_read_files_info env buf p1 (files arch) of
               (r, fs) \<Rightarrow> (r, arch\<lparr>files := fs\<rparr>))
          else if buf ! p = kEnd then (Final, arch)
          else (Invalid, arch))"

lemma read_next_section_advances:
  "rspamd_7zip_read_next_section env buf p arch = (Section p', arch') \<Longrightarrow>
     p < p' \<and> p < length buf"
  by (fastforce simp: rspamd_7zip_read_next_section_def rspamd_7zip_read_main_streams_info_def
        SZ_SKIP_BYTES_def
      split: option.splits if_splits prod.splits
      dest: read_archive_props_advances main_streams_info_loop_advances
        read_files_info_advances)

text \<open>
  \<open>while ((p = rspamd_7zip_read_next_section(...)) != NULL);\<close>
  The result says how the loop was left, and is never a \<open>Section\<close>.
\<close>

function sz_walk :: "sz_env \<Rightarrow> byte list \<Rightarrow> nat \<Rightarrow> archive \<Rightarrow> sz_section \<times> archive" where
  "sz_walk env buf p arch =
     (case rspamd_7zip_read_next_section env buf p arch of
        (r, arch') \<Rightarrow>
          (case r of
             Section p' \<Rightarrow> sz_walk env buf p' arch'
           | Final \<Rightarrow> (Final, arch')
           | Invalid \<Rightarrow> (Invalid, arch')
           | Crash \<Rightarrow> (Crash, arch')))"
  by pat_completeness auto
termination
  by (relation "measure (\<lambda>(env, buf, p, arch). length buf - p)")
    (auto dest!: read_next_section_advances [OF sym])

declare sz_walk.simps [simp del]

subsection \<open>The archive\<close>

definition sz_magic :: "byte list" where
  "sz_magic = [0x37, 0x7A, 0xBC, 0xAF, 0x27, 0x1C]"

text \<open>
  The head of \<open>rspamd_archive_process_7zip\<close>, up to the loop: the offset of the first
  section, or \<open>None\<close> for a \<open>return\<close>. After the magic, the version and a checksum come
  \<open>section_offset\<close>, \<open>section_length\<close> and one more checksum.
\<close>

definition sz_first_section :: "byte list \<Rightarrow> nat option" where
  "sz_first_section buf =
     (if length buf \<le> 12 \<or> take 6 buf \<noteq> sz_magic then None
      else if length buf - 12 < 8 then None
      else if length buf - 20 < 8 then None
      else if \<not> 4 < length buf - 28 then None
      else if \<not> unat (rd_le buf 12 8 :: 64 word) < length buf - 32 then None
      else Some (32 + unat (rd_le buf 12 8 :: 64 word)))"

text \<open>
  \<open>rspamd_archive_process_7zip\<close>: the part as it is after the call, or \<open>None\<close> when
  the call does not return. The statements after the loop attach the archive.
\<close>

definition rspamd_archive_process_7zip :: "sz_env \<Rightarrow> mime_part \<Rightarrow> mime_part option" where
  "rspamd_archive_process_7zip env part =
     (case sz_first_section (parsed_data part) of
        None \<Rightarrow> Some part
      | Some p \<Rightarrow>
          (case sz_walk env (parsed_data part) p (new_archive RSPAMD_ARCHIVE_7ZIP None) of
             (r, arch) \<Rightarrow>
               if r = Crash then None
               else Some (attach part (arch\<lparr>archive_name := cd_filename part\<rparr>))))"

subsection \<open>Concrete 7-Zip inputs\<close>

text \<open>
  A machine that clears what it does not know, strings allocated with one byte more
  than asked for, and a libarchive that opens nothing.
\<close>

definition toy_sz_env :: sz_env where
  "toy_sz_env = \<lparr>target_before = 0, shift_past_width = (\<lambda>x n. 0), stray_byte = (\<lambda>i. 0),
     stray_nstreams = (\<lambda>i. 0), buf_address = 0x1000, allocated_len = (\<lambda>n. n + 1),
     archive_read_7zip = (\<lambda>b. None)\<rparr>"

text \<open>
  The start header of 32 bytes with \<open>section_offset = 0\<close>, then \<open>kHeader\<close> and a
  \<open>kFilesInfo\<close> section that announces two files and has a \<open>kName\<close> property with the
  name \<open>a\<close> in line.
\<close>

definition sz_head :: "byte list" where
  "sz_head =
     [0x37, 0x7A, 0xBC, 0xAF, 0x27, 0x1C, 0x00, 0x04, 0x00, 0x00, 0x00, 0x00,
      0x00, 0x00, 0x00, 0x00, 0x00, 0x00, 0x00, 0x00,
      0x0C, 0x00, 0x00, 0x00, 0x00, 0x00, 0x00, 0x00,
      0x00, 0x00, 0x00, 0x00,
      0x01, 0x05, 0x02, 0x11, 0x05, 0x00, 0x61, 0x00, 0x00, 0x00]"

text \<open>
  After the first name the section breaks off: the second name has no end, and the
  byte the walk finds there, \<open>0x62\<close>, is no section.
\<close>

definition sz_second_name_cut :: "byte list" where
  "sz_second_name_cut = sz_head @ [0x62, 0x00]"

text \<open>The same with the second name \<open>b\<close>, the end of the section and the end of the header.\<close>

definition sz_two_names :: "byte list" where
  "sz_two_names = sz_head @ [0x62, 0x00, 0x00, 0x00, 0x00, 0x00]"

definition sz_file :: "byte list \<Rightarrow> archive_file" where
  "sz_file nm = new_file\<lparr>fname := Some nm\<rparr>"

section \<open>Properties of the integer decoders\<close>

text \<open>
  C3. The claim lets the RAR decoder fail whenever no byte with a clear continuation
  bit is found. The loop is left after nine continuation bytes with \<open>shift = 63\<close>, which
  its own test \<open>shift > 64\<close> never catches: on ten bytes \<open>0xFF\<close> the decoder does not fail,
  it reports nine bytes consumed and the 63 bits accumulated so far.
\<close>

theorem C3_rar_vint_overlong_accepted:
  "rspamd_archive_rar_read_vint (replicate 10 0xFF) = Some (0x7FFFFFFFFFFFFFFF, 9)"
  by code_simp

text \<open>
  C4. For every buffer whose first byte is \<open>0xFE\<close> the 7-Zip decoder fails, however many
  bytes follow: the loop inspects bits 6 down to 1 and never bit 0, so the row
  \<open>11111110  BYTE y[7]\<close> of the function's own table is never reached.
\<close>

theorem C4_7zip_vint_FE_always_fails:
  "rspamd_archive_7zip_read_vint junk wide_shr (0xFE # rest) = None"
  by (simp add: rspamd_archive_7zip_read_vint_def sz_vint_loop.simps)

section \<open>Properties of the ZIP writer\<close>

lemma strstr_None_iff: "strstr s n = None \<longleftrightarrow> \<not> (\<exists>a b. s = a @ n @ b)"
proof (induction s)
  case Nil
  then show ?case by auto
next
  case (Cons c cs)
  show ?case
  proof (cases "take (length n) (c # cs) = n")
    case True
    then have "c # cs = [] @ n @ drop (length n) (c # cs)"
      by (metis append_Nil append_take_drop_id)
    then have "\<exists>a b. c # cs = a @ n @ b" by blast
    with True show ?thesis by simp
  next
    case False
    have "(\<exists>a b. c # cs = a @ n @ b) \<longleftrightarrow> (\<exists>a b. cs = a @ n @ b)"
    proof
      assume "\<exists>a b. c # cs = a @ n @ b"
      then obtain a b where ab: "c # cs = a @ n @ b" by blast
      show "\<exists>a b. cs = a @ n @ b"
      proof (cases a)
        case Nil
        with ab have "take (length n) (c # cs) = n" by simp
        with False show ?thesis by simp
      next
        case (Cons x xs)
        with ab have "cs = xs @ n @ b" by simp
        then show ?thesis by blast
      qed
    next
      assume "\<exists>a b. cs = a @ n @ b"
      then obtain a b where "cs = a @ n @ b" by blast
      then have "c # cs = (c # a) @ n @ b" by simp
      then show "\<exists>a b. c # cs = a @ n @ b" by blast
    qed
    with False Cons.IH show ?thesis by simp
  qed
qed

lemma strchr_None_iff: "strchr s c = None \<longleftrightarrow> c \<notin> set s"
  by (induction s) auto

lemma validate_name_iff:
  "rspamd_zip_validate_name nmo \<longleftrightarrow>
     (\<exists>s. nmo = Some s \<and> s \<noteq> [] \<and> hd s \<noteq> CHR ''/'' \<and> hd s \<noteq> CHR 0x5C
          \<and> \<not> (\<exists>a b. s = a @ ''..'' @ b) \<and> CHR '':'' \<notin> set s)"
  by (cases nmo) (auto simp: rspamd_zip_validate_name_def strstr_None_iff strchr_None_iff simp del: strstr.simps)

lemma entry_invalid: "\<not> rspamd_zip_validate_name (name f) \<Longrightarrow> zip_write_entry env pw i st f = Inl InvalidName"
  by (simp add: zip_write_entry_def)

lemma entry_reliable:
  assumes "zip_env_reliable env" "rspamd_zip_validate_name (name f)"
  shows "\<exists>st'. zip_write_entry env pw i st f = Inr st'"
proof -
  from assms(2) obtain nm where nm: "name f = Some nm"
    by (auto simp: validate_name_iff)
  from assms(1) obtain out where out: "deflate_raw env (data f) = Inr out"
    unfolding zip_env_reliable_def by blast
  have plain: "\<exists>st'. zip_write_entry_plain env a b f nm = Inr st'" for a b
    by (simp add: zip_write_entry_plain_def out Let_def)
  have aes: "\<exists>st'. zip_write_entry_aes env p i a b f nm = Inr st'" for a b p
  proof -
    from assms(1) obtain rnd where rnd: "rand_bytes env i 16 = Some rnd"
      unfolding zip_env_reliable_def by (metis not_Some_eq)
    from assms(1) obtain dk where dk: "pbkdf2_hmac_sha1 env p (take 16 rnd) 1000 66 = Some dk"
      unfolding zip_env_reliable_def by (metis not_Some_eq)
    from assms(1) have init: "aes_ctr_init env k iv" for k iv
      unfolding zip_env_reliable_def by blast
    from assms(1) have enc: "\<exists>ct. aes_ctr_encrypt env k iv d = Some ct" for k iv d
      unfolding zip_env_reliable_def by (metis not_Some_eq)
    have "\<exists>st'. zip_aes_payload env z b f nm l ek ak = Inr st'" for z l ek ak
      using enc [of ek "replicate 16 0" "if length (data f) \<le> length out then data f else out"]
      by (auto simp: zip_aes_payload_def Let_def out init)
    then show ?thesis
      by (simp add: zip_write_entry_aes_def Let_def rnd dk)
  qed
  show ?thesis
    using plain aes assms(2) nm by (auto simp: zip_write_entry_def split: option.splits)
qed

lemma files_invalid_fails:
  "\<exists>f\<in>set fs. \<not> rspamd_zip_validate_name (name f) \<Longrightarrow> \<exists>e. zip_write_files env pw i fs st = Inl e"
proof (induction fs arbitrary: i st)
  case Nil
  then show ?case by simp
next
  case (Cons f fs)
  show ?case
  proof (cases "zip_write_entry env pw i st f")
    case (Inl e)
    then show ?thesis by simp
  next
    case (Inr st')
    then have "rspamd_zip_validate_name (name f)"
      by (auto simp: zip_write_entry_def split: if_splits)
    with Cons.prems have "\<exists>f\<in>set fs. \<not> rspamd_zip_validate_name (name f)" by auto
    from Cons.IH [OF this] Inr show ?thesis by simp
  qed
qed

lemma files_invalid_reliable:
  "zip_env_reliable env \<Longrightarrow> \<exists>f\<in>set fs. \<not> rspamd_zip_validate_name (name f)
     \<Longrightarrow> zip_write_files env pw i fs st = Inl InvalidName"
proof (induction fs arbitrary: i st)
  case Nil
  then show ?case by simp
next
  case (Cons f fs)
  show ?case
  proof (cases "rspamd_zip_validate_name (name f)")
    case True
    with Cons.prems(1) obtain st' where st': "zip_write_entry env pw i st f = Inr st'"
      using entry_reliable by blast
    from True Cons.prems(2) have "\<exists>f\<in>set fs. \<not> rspamd_zip_validate_name (name f)" by auto
    from Cons.IH [OF Cons.prems(1) this] st' show ?thesis by simp
  next
    case False
    then show ?thesis by (simp add: entry_invalid)
  qed
qed

lemma toy_env_reliable: "zip_env_reliable toy_env"
  by (simp add: zip_env_reliable_def toy_env_def)

lemma files_reliable:
  assumes "zip_env_reliable env" "\<forall>f\<in>set fs. rspamd_zip_validate_name (name f)"
  shows "\<exists>st'. zip_write_files env pw i fs st = Inr st'"
  using assms(2)
proof (induction fs arbitrary: i st)
  case Nil
  then show ?case by simp
next
  case (Cons f fs)
  from Cons.prems have "rspamd_zip_validate_name (name f)" by simp
  from entry_reliable [OF assms(1) this] obtain st' where
    "zip_write_entry env pw i st f = Inr st'" by blast
  moreover from Cons.prems have "\<forall>f\<in>set fs. rspamd_zip_validate_name (name f)" by simp
  from Cons.IH [OF this] obtain st'' where
    "zip_write_files env pw (Suc i) fs st' = Inr st''" by blast
  ultimately show ?case by simp
qed

lemma writer_succeeds:
  assumes "zip_env_reliable env" "specs \<noteq> []"
    and "\<forall>f\<in>set specs. rspamd_zip_validate_name (name f)"
  shows "\<exists>out. rspamd_archives_zip_write env specs pw = Inr out"
proof -
  from files_reliable [OF assms(1,3)] obtain zn cn where
    "zip_write_files env pw 0 specs ([], []) = Inr (zn, cn)" by fastforce
  with assms(2) show ?thesis
    by (simp add: rspamd_archives_zip_write_def Let_def)
qed

text \<open>
  C8. A name passes \<open>rspamd_zip_validate_name\<close> exactly when it is present, not empty,
  does not begin with \<open>/\<close> or a backslash, does not contain \<open>..\<close> and does not contain
  \<open>:\<close>. Whenever some entry's name does not pass, the writer fails and returns no
  archive; the failure is \<open>InvalidName\<close> unless zlib, the random generator or the
  crypto library failed on an entry before it.
\<close>

theorem C8_invalid_name_rejected:
  "(rspamd_zip_validate_name nmo \<longleftrightarrow>
      (\<exists>s. nmo = Some s \<and> s \<noteq> [] \<and> hd s \<noteq> CHR ''/'' \<and> hd s \<noteq> CHR 0x5C
           \<and> \<not> (\<exists>a b. s = a @ ''..'' @ b) \<and> CHR '':'' \<notin> set s))
   \<and> ((\<exists>f\<in>set specs. \<not> rspamd_zip_validate_name (name f)) \<longrightarrow>
        (\<exists>e. rspamd_archives_zip_write env specs password = Inl e)
        \<and> (zip_env_reliable env \<longrightarrow> rspamd_archives_zip_write env specs password = Inl InvalidName))"
proof (intro conjI impI)
  show "rspamd_zip_validate_name nmo \<longleftrightarrow>
      (\<exists>s. nmo = Some s \<and> s \<noteq> [] \<and> hd s \<noteq> CHR ''/'' \<and> hd s \<noteq> CHR 0x5C
           \<and> \<not> (\<exists>a b. s = a @ ''..'' @ b) \<and> CHR '':'' \<notin> set s)"
    by (rule validate_name_iff)
next
  assume bad: "\<exists>f\<in>set specs. \<not> rspamd_zip_validate_name (name f)"
  then have ne: "specs \<noteq> []" by auto
  from files_invalid_fails [OF bad] obtain e where "zip_write_files env password 0 specs ([], []) = Inl e"
    by blast
  with ne show "\<exists>e. rspamd_archives_zip_write env specs password = Inl e"
    by (simp add: rspamd_archives_zip_write_def)
next
  assume bad: "\<exists>f\<in>set specs. \<not> rspamd_zip_validate_name (name f)" and rel: "zip_env_reliable env"
  then have ne: "specs \<noteq> []" by auto
  from files_invalid_reliable [OF rel bad] ne
  show "rspamd_archives_zip_write env specs password = Inl InvalidName"
    by (simp add: rspamd_archives_zip_write_def)
qed


theorem C8_invalid_name_rejected_witness:
  "\<not> rspamd_zip_validate_name (name spec_traversal)
   \<and> rspamd_zip_validate_name (name spec_a_txt)
   \<and> zip_env_reliable toy_env
   \<and> rspamd_archives_zip_write toy_env [spec_a_txt, spec_traversal] None = Inl InvalidName"
proof -
  have bad: "\<not> rspamd_zip_validate_name (name spec_traversal)"
    by (simp add: spec_traversal_def rspamd_zip_validate_name_def)
  have good: "rspamd_zip_validate_name (name spec_a_txt)"
    by (simp add: spec_a_txt_def rspamd_zip_validate_name_def)
  from bad have ex: "\<exists>f\<in>set [spec_a_txt, spec_traversal]. \<not> rspamd_zip_validate_name (name f)"
    by simp
  from C8_invalid_name_rejected [of "name spec_a_txt" "[spec_a_txt, spec_traversal]" toy_env None]
    ex toy_env_reliable
  have "rspamd_archives_zip_write toy_env [spec_a_txt, spec_traversal] None = Inl InvalidName"
    by blast
  with bad good toy_env_reliable show ?thesis by simp
qed

subsection \<open>The layout of the archive\<close>

lemma length_u16le [simp]: "length (u16le v) = 2"
  by (simp add: u16le_def rspamd_ba_append_u16le_def)

lemma length_u32le [simp]: "length (u32le v) = 4"
  by (simp add: u32le_def rspamd_ba_append_u32le_def)

lemma append_u16le: "rspamd_ba_append_u16le ba v = ba @ u16le v"
  by (simp add: u16le_def rspamd_ba_append_u16le_def)

lemma append_u32le: "rspamd_ba_append_u32le ba v = ba @ u32le v"
  by (simp add: u32le_def rspamd_ba_append_u32le_def)

lemma le_word_u16le [simp]: "le_word (u16le v) = v"
  apply (simp add: u16le_def rspamd_ba_append_u16le_def)
  apply (rule bit_word_eqI)
  apply (auto simp: bit_simps dest: bit_imp_le_length)
  done

lemma le_word_u32le [simp]: "le_word (u32le v) = v"
  apply (simp add: u32le_def rspamd_ba_append_u32le_def)
  apply (rule bit_word_eqI)
  apply (auto simp: bit_simps dest: bit_imp_le_length)
  subgoal for n by (cases "n < 24") simp_all
  done

lemma rd_le_append_skip: "length a \<le> k \<Longrightarrow> rd_le (a @ b) k n = rd_le b (k - length a) n"
  by (simp add: rd_le_def)

lemma rd_le_append_here: "length a = n \<Longrightarrow> rd_le (a @ b) 0 n = le_word a"
  by (simp add: rd_le_def)

lemma length_patch_ge: "length buf \<le> length (patch_bytes buf off bs)"
  by (simp add: patch_bytes_def)

lemma patch_mid:
  "length old = length new \<Longrightarrow> off = length a \<Longrightarrow> patch_bytes (a @ old @ b) off new = a @ new @ b"
  by (simp add: patch_bytes_def)

lemma write_local_header_eq:
  "rspamd_zip_write_local_header env zb nm v g m t crc cs us el =
     zb @ u32le 0x04034b50 @ u16le v @ u16le g @ u16le m @ u16le (rspamd_zip_time_dos env t)
        @ u16le (rspamd_zip_date_dos env t) @ u32le crc @ u32le cs @ u32le us
        @ u16le (word_of_nat (length nm)) @ u16le el @ map byte_of_char nm"
  by (simp add: rspamd_zip_write_local_header_def Let_def append_u16le append_u32le)

lemma write_central_header_eq:
  "rspamd_zip_write_central_header env cd nm v g m t crc cs us lo md el =
     cd @ u32le 0x02014b50 @ u16le (push_bit 8 3 OR 20) @ u16le v @ u16le g @ u16le m
        @ u16le (rspamd_zip_time_dos env t) @ u16le (rspamd_zip_date_dos env t)
        @ u32le crc @ u32le cs @ u32le us @ u16le (word_of_nat (length nm)) @ u16le el
        @ u16le 0 @ u16le 0 @ u16le 0
        @ u32le (push_bit 16 ((if md \<noteq> 0 then md else 0x1A4) AND 0xFFFF)) @ u32le lo
        @ map byte_of_char nm"
  by (simp add: rspamd_zip_write_central_header_def Let_def append_u16le append_u32le)

lemma write_extra_aes_eq:
  "rspamd_zip_write_extra_aes ba vv st am =
     ba @ u16le ZIP_AES_EXTRA_ID @ u16le 7 @ u16le vv
        @ [byte_of_char CHR ''A'', byte_of_char CHR ''E''] @ [st] @ u16le am"
  by (simp add: rspamd_zip_write_extra_aes_def Let_def append_u16le)

lemma unat_len32: "n < 2 ^ 32 \<Longrightarrow> unat (word_of_nat n :: 32 word) = n"
  by (simp add: unat_of_nat)

lemma write_central_header_append:
  "rspamd_zip_write_central_header env cd nm v g m t crc cs us lo md el =
     cd @ rspamd_zip_write_central_header env [] nm v g m t crc cs us lo md el"
  by (simp add: write_central_header_eq)

lemma plain_entry_nf:
  assumes "length zb < 2 ^ 32" and "deflate_raw env (data f) = Inr out"
  shows "zip_write_entry_plain env zb cd f nm =
     Inr (zb @ plain_entry_bytes env f nm out,
          cd @ plain_cd_record env f nm out (word_of_nat (length zb)))"
  using assms
  apply (simp add: zip_write_entry_plain_def Let_def unat_len32 write_local_header_eq
      plain_entry_bytes_def plain_cd_record_def write_central_header_append [of _ cd])
  apply (simp add: patch_bytes_def)
  done


lemma length_aes_vendor_tag [simp]: "length aes_vendor_tag = 3"
  by (simp add: aes_vendor_tag_def)

lemma write_extra_aes_tag:
  "rspamd_zip_write_extra_aes ba vv 0x03 am =
     ba @ u16le ZIP_AES_EXTRA_ID @ u16le 7 @ u16le vv @ aes_vendor_tag @ u16le am"
  by (simp add: write_extra_aes_eq aes_vendor_tag_def)

lemma aes_finish_nf:
  assumes "length zb < 2 ^ 32" and "length nm < 2 ^ 32"
  shows "\<exists>cs cd'.
     zip_aes_finish env
       (zb @ aes_entry_head env f nm 0 8 @ sp @ plain) cd f nm (word_of_nat (length zb))
       (length (zb @ aes_entry_head env f nm 0 8 @ sp)) akey ct am
     = (zb @ aes_entry_head env f nm cs am @ sp @ ct
          @ take 10 (hmac_sha1 env akey ct), cd')"
  using assms
  apply (simp add: zip_aes_finish_def Let_def unat_len32 aes_entry_head_def)
  apply (simp add: patch_bytes_def)
  apply blast
  done

lemma aes_entry_nf:
  assumes "length zb < 2 ^ 32" and "length nm < 2 ^ 32"
    and "zip_write_entry_aes env pw i zb cd f nm = Inr (zb', cd')"
  shows "\<exists>cs tl out. deflate_raw env (data f) = Inr out
     \<and> zb' = zb @ aes_entry_head env f nm cs (if length out \<ge> length (data f) then 0 else 8) @ tl"
proof -
  from assms(3) obtain rnd dk where
    p: "zip_aes_payload env
         (rspamd_zip_write_extra_aes
            (rspamd_zip_write_local_header env zb nm (max 20 51) (push_bit 11 1 OR 1) 99 (mtime f) 0 0
               (word_of_nat (length (data f))) (2 + 2 + 7)) 2 3 8
          @ take 16 rnd @ take 2 (drop (32 * 2) dk))
         cd f nm (word_of_nat (length zb)) (take 32 dk) (take 32 (drop 32 dk)) = Inr (zb', cd')"
    by (auto simp: zip_write_entry_aes_def Let_def split: option.splits)
  define sp where "sp = take 16 rnd @ take 2 (drop (32 * 2) dk)"
  have h: "rspamd_zip_write_extra_aes
            (rspamd_zip_write_local_header env zb nm (max 20 51) (push_bit 11 1 OR 1) 99 (mtime f) 0 0
               (word_of_nat (length (data f))) (2 + 2 + 7)) 2 3 8
          @ take 16 rnd @ take 2 (drop (32 * 2) dk) = zb @ aes_entry_head env f nm 0 8 @ sp"
    by (simp add: write_extra_aes_tag write_local_header_eq aes_entry_head_def sp_def ZIP_AES_EXTRA_ID_def)
  from p [unfolded h] obtain out ct where out: "deflate_raw env (data f) = Inr out"
    and fin: "zip_aes_finish env ((zb @ aes_entry_head env f nm 0 8 @ sp)
                 @ (if length out \<ge> length (data f) then data f else out)) cd f nm
               (word_of_nat (length zb)) (length (zb @ aes_entry_head env f nm 0 8 @ sp))
               (take 32 (drop 32 dk)) ct (if length out \<ge> length (data f) then 0 else 8) = (zb', cd')"
    by (auto simp: zip_aes_payload_def Let_def split: if_splits sum.splits option.splits)
  from aes_finish_nf [OF assms(1,2), of env f sp "if length out \<ge> length (data f) then data f else out"
      cd "take 32 (drop 32 dk)" ct "if length out \<ge> length (data f) then 0 else 8"] fin
  obtain cs where "zb' = zb @ aes_entry_head env f nm cs (if length out \<ge> length (data f) then 0 else 8)
     @ sp @ ct @ take 10 (hmac_sha1 env (take 32 (drop 32 dk)) ct)"
    by auto
  with out show ?thesis by blast
qed


lemma le_patch: "n \<le> length buf \<Longrightarrow> n \<le> length (patch_bytes buf off bs)"
  using length_patch_ge [of buf off bs] by simp

lemma plain_entry_len:
  assumes "zip_write_entry_plain env zb cd f nm = Inr (zb', cd')"
  shows "length zb \<le> length zb'"
  using assms
  by (auto simp: zip_write_entry_plain_def Let_def write_local_header_eq
      split: sum.splits if_splits intro!: le_patch)

lemma aes_entry_len:
  assumes "zip_write_entry_aes env pw i zb cd f nm = Inr (zb', cd')"
  shows "length zb \<le> length zb'"
  using assms
  by (auto simp: zip_write_entry_aes_def zip_aes_payload_def zip_aes_finish_def Let_def
      write_local_header_eq write_extra_aes_eq
      split: sum.splits if_splits option.splits intro!: le_patch)

lemma entry_len:
  assumes "zip_write_entry env pw i (zb, cd) f = Inr (zb', cd')"
  shows "length zb \<le> length zb'"
  using assms
  by (auto simp: zip_write_entry_def split: option.splits if_splits
      dest: plain_entry_len aes_entry_len)

lemma files_len:
  "zip_write_files env pw i fs (zb, cd) = Inr (zn, cn) \<Longrightarrow> length zb \<le> length zn"
proof (induction fs arbitrary: i zb cd)
  case Nil
  then show ?case by simp
next
  case (Cons f fs)
  from Cons.prems obtain z1 c1 where e: "zip_write_entry env pw i (zb, cd) f = Inr (z1, c1)"
    and r: "zip_write_files env pw (Suc i) fs (z1, c1) = Inr (zn, cn)"
    by (auto split: sum.splits)
  from entry_len [OF e] Cons.IH [OF r] show ?case by simp
qed

lemma aes_entry_len_name:
  assumes "zip_write_entry_aes env pw i zb cd f nm = Inr (zb', cd')"
  shows "length zb + length nm \<le> length zb'"
  using assms
  by (auto simp: zip_write_entry_aes_def zip_aes_payload_def zip_aes_finish_def Let_def
      write_local_header_eq write_extra_aes_eq
      split: sum.splits if_splits option.splits intro!: le_patch)

lemma aes_entry_shape:
  assumes "zip_write_entry_aes env pw i zb cd f nm = Inr (zb', cd')" and "length zb' < 2 ^ 32"
  shows "\<exists>cs tl out. deflate_raw env (data f) = Inr out
     \<and> zb' = zb @ aes_entry_head env f nm cs (if length out \<ge> length (data f) then 0 else 8) @ tl"
proof -
  from aes_entry_len_name [OF assms(1)] assms(2)
  have "length zb < 2 ^ 32" "length nm < 2 ^ 32" by simp_all
  from aes_entry_nf [OF this assms(1)] show ?thesis .
qed

lemma plain_entry_shape:
  assumes "zip_write_entry_plain env zb cd f nm = Inr (zb', cd')" and "length zb' < 2 ^ 32"
  shows "\<exists>out. deflate_raw env (data f) = Inr out
     \<and> zb' = zb @ plain_entry_bytes env f nm out
     \<and> cd' = cd @ plain_cd_record env f nm out (word_of_nat (length zb))"
proof -
  from plain_entry_len [OF assms(1)] assms(2) have l: "length zb < 2 ^ 32" by simp
  from assms(1) obtain out where out: "deflate_raw env (data f) = Inr out"
    by (auto simp: zip_write_entry_plain_def Let_def split: sum.splits)
  from plain_entry_nf [OF l out, where nm = nm and cd = cd] assms(1) out show ?thesis by simp
qed

lemma entry_prefix:
  assumes "zip_write_entry env pw i (zb, cd) f = Inr (zb', cd')" and "length zb' < 2 ^ 32"
  shows "\<exists>e. zb' = zb @ e"
proof -
  from assms(1) obtain nm where
    "zip_write_entry_plain env zb cd f nm = Inr (zb', cd')
     \<or> (\<exists>p. zip_write_entry_aes env p i zb cd f nm = Inr (zb', cd'))"
    by (auto simp: zip_write_entry_def split: option.splits if_splits)
  then show ?thesis
    using plain_entry_shape [OF _ assms(2)] aes_entry_shape [OF _ assms(2)] by blast
qed

lemma files_prefix:
  "zip_write_files env pw i fs (zb, cd) = Inr (zn, cn) \<Longrightarrow> length zn < 2 ^ 32 \<Longrightarrow> \<exists>r. zn = zb @ r"
proof (induction fs arbitrary: i zb cd)
  case Nil
  then show ?case by simp
next
  case (Cons f fs)
  from Cons.prems(1) obtain z1 c1 where e: "zip_write_entry env pw i (zb, cd) f = Inr (z1, c1)"
    and r: "zip_write_files env pw (Suc i) fs (z1, c1) = Inr (zn, cn)"
    by (auto split: sum.splits)
  from files_len [OF r] Cons.prems(2) have "length z1 < 2 ^ 32" by simp
  from entry_prefix [OF e this] obtain en where "z1 = zb @ en" by blast
  moreover from Cons.IH [OF r Cons.prems(2)] obtain r' where "zn = z1 @ r'" by blast
  ultimately show ?case by simp
qed

lemma files_split:
  "zip_write_files env pw i fs st = Inr stn \<Longrightarrow> k < length fs
   \<Longrightarrow> \<exists>sk sk'. zip_write_files env pw i (take k fs) st = Inr sk
          \<and> zip_write_entry env pw (i + k) sk (fs ! k) = Inr sk'
          \<and> zip_write_files env pw (Suc (i + k)) (drop (Suc k) fs) sk' = Inr stn"
proof (induction fs arbitrary: i st k)
  case Nil
  then show ?case by simp
next
  case (Cons f fs)
  from Cons.prems(1) obtain s1 where e: "zip_write_entry env pw i st f = Inr s1"
    and r: "zip_write_files env pw (Suc i) fs s1 = Inr stn"
    by (auto split: sum.splits)
  show ?case
  proof (cases k)
    case 0
    with e r show ?thesis by (cases s1) simp
  next
    case (Suc k')
    with Cons.prems(2) have "k' < length fs" by simp
    from Cons.IH [OF r this] e Suc show ?thesis by simp
  qed
qed


lemma aes_head_fields:
  fixes zi rest :: "byte list" and env f nm cs am
  defines "out \<equiv> zi @ aes_entry_head env f nm cs am @ rest"
  defines "off \<equiv> length zi"
  defines "x \<equiv> length zi + 30 + length nm"
  shows "(rd_le out off 4 :: 32 word) = 0x04034b50"
    and "(rd_le out (off + 4) 2 :: 16 word) = 51"
    and "(rd_le out (off + 6) 2 :: 16 word) = push_bit 11 1 OR 1"
    and "(rd_le out (off + 8) 2 :: 16 word) = 99"
    and "(rd_le out (off + 14) 4 :: 32 word) = 0"
    and "(rd_le out (off + 26) 2 :: 16 word) = word_of_nat (length nm)"
    and "(rd_le out (off + 28) 2 :: 16 word) = 11"
    and "take (length nm) (drop (off + 30) out) = map byte_of_char nm"
    and "(rd_le out x 2 :: 16 word) = 0x9901"
    and "(rd_le out (x + 2) 2 :: 16 word) = 7"
    and "(rd_le out (x + 4) 2 :: 16 word) = 2"
    and "take 3 (drop (x + 6) out) = aes_vendor_tag"
    and "(rd_le out (x + 9) 2 :: 16 word) = am"
  unfolding out_def off_def x_def aes_entry_head_def
  by (simp_all add: rd_le_append_skip rd_le_append_here)


lemma zip_write_Inr:
  assumes "rspamd_archives_zip_write env specs pw = Inr out"
  shows "\<exists>zn cn. zip_write_files env pw 0 specs ([], []) = Inr (zn, cn) \<and> specs \<noteq> []
      \<and> out = zn @ cn @ u32le 0x06054b50 @ u16le 0 @ u16le 0 @ u16le (word_of_nat (length specs))
         @ u16le (word_of_nat (length specs)) @ u32le (word_of_nat (length cn))
         @ u32le (word_of_nat (length zn)) @ u16le 0"
  using assms
  by (auto simp: rspamd_archives_zip_write_def Let_def append_u16le append_u32le
      split: if_splits sum.splits)

lemma written_a_txt_aes:
  "rspamd_archives_zip_write toy_env [spec_a_txt] (Some ''pw'') = Inr zip_a_txt_aes"
  by code_simp

lemma written_a_b_plain:
  "rspamd_archives_zip_write toy_env [spec_a_txt, spec_b_bin] None = Inr zip_a_b_plain"
  by code_simp

text \<open>
  The layout of the local header of an archive that was written with a password.
\<close>

lemma aes_local_header_layout:
  assumes "rspamd_archives_zip_write env specs (Some pw) = Inr out" and "pw \<noteq> []"
    and "i < length specs" and "length out < 2 ^ 32"
  shows "\<exists>zi ci nm dout.
      zip_write_files env (Some pw) 0 (take i specs) ([], []) = Inr (zi, ci)
    \<and> name (specs ! i) = Some nm
    \<and> deflate_raw env (data (specs ! i)) = Inr dout
    \<and> (rd_le out (length zi) 4 :: 32 word) = 0x04034b50
    \<and> (rd_le out (length zi + 4) 2 :: 16 word) \<ge> 51
    \<and> (rd_le out (length zi + 6) 2 :: 16 word) AND 1 = 1
    \<and> (rd_le out (length zi + 8) 2 :: 16 word) = 99
    \<and> (rd_le out (length zi + 14) 4 :: 32 word) = 0
    \<and> (rd_le out (length zi + 26) 2 :: 16 word) = word_of_nat (length nm)
    \<and> (rd_le out (length zi + 28) 2 :: 16 word) = 11
    \<and> take (length nm) (drop (length zi + 30) out) = map byte_of_char nm
    \<and> (rd_le out (length zi + 30 + length nm) 2 :: 16 word) = 0x9901
    \<and> (rd_le out (length zi + 30 + length nm + 2) 2 :: 16 word) = 7
    \<and> (rd_le out (length zi + 30 + length nm + 4) 2 :: 16 word) = 0x0002
    \<and> take 3 (drop (length zi + 30 + length nm + 6) out)
        = [byte_of_char CHR ''A'', byte_of_char CHR ''E'', 0x03]
    \<and> (rd_le out (length zi + 30 + length nm + 9) 2 :: 16 word)
        = (if length dout \<ge> length (data (specs ! i)) then 0 else 8)"
proof -
  define tl where "tl cn zn = u32le 0x06054b50 @ u16le 0 @ u16le 0 @ u16le (word_of_nat (length specs))
         @ u16le (word_of_nat (length specs)) @ u32le (word_of_nat (length cn))
         @ u32le (word_of_nat (length zn)) @ u16le 0" for cn zn :: "byte list"
  from zip_write_Inr [OF assms(1)] obtain zn cn where
    w: "zip_write_files env (Some pw) 0 specs ([], []) = Inr (zn, cn)"
    and out: "out = zn @ cn @ tl cn zn"
    unfolding tl_def by blast
  from out assms(4) have zn: "length zn < 2 ^ 32" by simp
  from files_split [OF w assms(3)] obtain zi ci zi' ci' where
    pre: "zip_write_files env (Some pw) 0 (take i specs) ([], []) = Inr (zi, ci)"
    and ent: "zip_write_entry env (Some pw) i (zi, ci) (specs ! i) = Inr (zi', ci')"
    and post: "zip_write_files env (Some pw) (Suc i) (drop (Suc i) specs) (zi', ci') = Inr (zn, cn)"
    by auto
  from files_len [OF post] zn have zi': "length zi' < 2 ^ 32" by simp
  from files_prefix [OF post zn] obtain r where r: "zn = zi' @ r" by blast
  from ent assms(2) obtain nm where nm: "name (specs ! i) = Some nm"
    and aes: "zip_write_entry_aes env pw i zi ci (specs ! i) nm = Inr (zi', ci')"
    by (auto simp: zip_write_entry_def split: option.splits if_splits)
  from aes_entry_shape [OF aes zi'] obtain cs tl' dout where
    dout: "deflate_raw env (data (specs ! i)) = Inr dout"
    and sh: "zi' = zi @ aes_entry_head env (specs ! i) nm cs
               (if length dout \<ge> length (data (specs ! i)) then 0 else 8) @ tl'"
    by blast
  have o: "out = zi @ aes_entry_head env (specs ! i) nm cs
               (if length dout \<ge> length (data (specs ! i)) then 0 else 8) @ (tl' @ r @ cn @ tl cn zn)"
    by (simp add: out r sh)
  note F = aes_head_fields [where zi = zi and env = env and f = "specs ! i" and nm = nm and cs = cs
      and am = "if length dout \<ge> length (data (specs ! i)) then 0 else 8"
      and rest = "tl' @ r @ cn @ tl cn zn", folded o]
  have g: "(51 :: 16 word) \<le> 51" "(push_bit 11 1 OR 1 :: 16 word) AND 1 = 1"
    by simp_all
  show ?thesis
    apply (rule exI [of _ zi], rule exI [of _ ci], rule exI [of _ nm], rule exI [of _ dout])
    apply (simp only: pre nm dout F g aes_vendor_tag_def)
    done
qed

text \<open>
  C7. With collaborators that do not fail, on entries whose names pass
  \<open>rspamd_zip_validate_name\<close> and with a password that is not empty, the writer
  returns an archive. When the archive is below 4 GiB, the \<open>i\<close>-th entry starts where
  the entries before it end, and there the archive holds a local file header with the
  signature, version needed 51, flag bit 0 set, method 99, CRC 0, and extra length 11,
  followed by the name and by the extra field: id \<open>0x9901\<close>, size 7, vendor version 2,
  \<open>AE\<close>, strength 3 and the actual method, 0 when zlib did not shrink the data and 8
  otherwise.
\<close>

theorem C7_aes_local_header:
  assumes "zip_env_reliable env" and "specs \<noteq> []"
    and "\<forall>f\<in>set specs. rspamd_zip_validate_name (name f)" and "pw \<noteq> []"
  shows "\<exists>out. rspamd_archives_zip_write env specs (Some pw) = Inr out
    \<and> (length out < 2 ^ 32 \<longrightarrow>
        (\<forall>i<length specs. \<exists>zi ci nm dout.
            zip_write_files env (Some pw) 0 (take i specs) ([], []) = Inr (zi, ci)
          \<and> name (specs ! i) = Some nm
          \<and> deflate_raw env (data (specs ! i)) = Inr dout
          \<and> (rd_le out (length zi) 4 :: 32 word) = 0x04034b50
          \<and> (rd_le out (length zi + 4) 2 :: 16 word) \<ge> 51
          \<and> (rd_le out (length zi + 6) 2 :: 16 word) AND 1 = 1
          \<and> (rd_le out (length zi + 8) 2 :: 16 word) = 99
          \<and> (rd_le out (length zi + 14) 4 :: 32 word) = 0
          \<and> (rd_le out (length zi + 26) 2 :: 16 word) = word_of_nat (length nm)
          \<and> (rd_le out (length zi + 28) 2 :: 16 word) = 11
          \<and> take (length nm) (drop (length zi + 30) out) = map byte_of_char nm
          \<and> (rd_le out (length zi + 30 + length nm) 2 :: 16 word) = 0x9901
          \<and> (rd_le out (length zi + 30 + length nm + 2) 2 :: 16 word) = 7
          \<and> (rd_le out (length zi + 30 + length nm + 4) 2 :: 16 word) = 0x0002
          \<and> take 3 (drop (length zi + 30 + length nm + 6) out)
              = [byte_of_char CHR ''A'', byte_of_char CHR ''E'', 0x03]
          \<and> (rd_le out (length zi + 30 + length nm + 9) 2 :: 16 word)
              = (if length dout \<ge> length (data (specs ! i)) then 0 else 8)))"
proof -
  from writer_succeeds [OF assms(1,2,3)] obtain out where
    w: "rspamd_archives_zip_write env specs (Some pw) = Inr out" by blast
  show ?thesis
  proof (rule exI [of _ out], rule conjI [OF w], intro impI allI)
    fix i
    assume "length out < 2 ^ 32" and "i < length specs"
    from aes_local_header_layout [OF w assms(4) this(2) this(1)]
    show "\<exists>zi ci nm dout.
            zip_write_files env (Some pw) 0 (take i specs) ([], []) = Inr (zi, ci)
          \<and> name (specs ! i) = Some nm
          \<and> deflate_raw env (data (specs ! i)) = Inr dout
          \<and> (rd_le out (length zi) 4 :: 32 word) = 0x04034b50
          \<and> (rd_le out (length zi + 4) 2 :: 16 word) \<ge> 51
          \<and> (rd_le out (length zi + 6) 2 :: 16 word) AND 1 = 1
          \<and> (rd_le out (length zi + 8) 2 :: 16 word) = 99
          \<and> (rd_le out (length zi + 14) 4 :: 32 word) = 0
          \<and> (rd_le out (length zi + 26) 2 :: 16 word) = word_of_nat (length nm)
          \<and> (rd_le out (length zi + 28) 2 :: 16 word) = 11
          \<and> take (length nm) (drop (length zi + 30) out) = map byte_of_char nm
          \<and> (rd_le out (length zi + 30 + length nm) 2 :: 16 word) = 0x9901
          \<and> (rd_le out (length zi + 30 + length nm + 2) 2 :: 16 word) = 7
          \<and> (rd_le out (length zi + 30 + length nm + 4) 2 :: 16 word) = 0x0002
          \<and> take 3 (drop (length zi + 30 + length nm + 6) out)
              = [byte_of_char CHR ''A'', byte_of_char CHR ''E'', 0x03]
          \<and> (rd_le out (length zi + 30 + length nm + 9) 2 :: 16 word)
              = (if length dout \<ge> length (data (specs ! i)) then 0 else 8)" .
  qed
qed

text \<open>
  Two entries with the password \<open>pw\<close>: zlib shrinks the data of the first, which
  starts at offset 0, and does not shrink the one byte of the second, which starts at
  offset 77.
\<close>

lemma written_a_c_aes:
  "rspamd_archives_zip_write toy_env [spec_a_txt, spec_c_raw] (Some ''pw'') = Inr zip_a_c_aes"
  by code_simp

lemma written_a_aes_entry:
  "zip_write_files toy_env (Some ''pw'') 0 [spec_a_txt] ([], []) = Inr (take 77 zip_a_c_aes, drop 148 (take 210 zip_a_c_aes))"
  by code_simp

theorem C7_aes_local_header_witness:
  "zip_env_reliable toy_env \<and> [spec_a_txt, spec_c_raw] \<noteq> []
   \<and> rspamd_zip_validate_name (name spec_a_txt) \<and> rspamd_zip_validate_name (name spec_c_raw)
   \<and> ''pw'' \<noteq> []
   \<and> rspamd_archives_zip_write toy_env [spec_a_txt, spec_c_raw] (Some ''pw'') = Inr zip_a_c_aes
   \<and> length zip_a_c_aes < 2 ^ 32
   \<and> (rd_le zip_a_c_aes 0 4 :: 32 word) = 0x04034b50
   \<and> (rd_le zip_a_c_aes 8 2 :: 16 word) = 99
   \<and> (rd_le zip_a_c_aes 14 4 :: 32 word) = 0
   \<and> (rd_le zip_a_c_aes (30 + 5) 2 :: 16 word) = 0x9901
   \<and> (rd_le zip_a_c_aes (30 + 5 + 9) 2 :: 16 word) = 8
   \<and> (rd_le zip_a_c_aes 77 4 :: 32 word) = 0x04034b50
   \<and> (rd_le zip_a_c_aes (77 + 8) 2 :: 16 word) = 99
   \<and> (rd_le zip_a_c_aes (77 + 14) 4 :: 32 word) = 0
   \<and> (rd_le zip_a_c_aes (77 + 30 + 1) 2 :: 16 word) = 0x9901
   \<and> (rd_le zip_a_c_aes (77 + 30 + 1 + 9) 2 :: 16 word) = 0"
proof -
  have v: "rspamd_zip_validate_name (name spec_a_txt)" "rspamd_zip_validate_name (name spec_c_raw)"
    by code_simp+
  have h: "[spec_a_txt, spec_c_raw] \<noteq> []" "''pw'' \<noteq> []" "length zip_a_c_aes < 2 ^ 32"
    by (simp_all add: zip_a_c_aes_def)
  have va: "\<forall>f\<in>set [spec_a_txt, spec_c_raw]. rspamd_zip_validate_name (name f)"
    using v by simp
  have d: "deflate_raw toy_env (data spec_a_txt) = Inr [0x68, 0x6C, 0x6F]"
    "deflate_raw toy_env (data spec_c_raw) = Inr [0x7A]"
    "name spec_a_txt = Some ''a.txt''" "length (data spec_a_txt) = 5"
    "name spec_c_raw = Some ''c''" "length (data spec_c_raw) = 1"
    by (simp_all add: toy_env_def spec_a_txt_def spec_c_raw_def)
  have l: "min (length zip_a_c_aes) 77 = 77"
    by (simp add: zip_a_c_aes_def)
  from C7_aes_local_header [OF toy_env_reliable h(1) va h(2)] written_a_c_aes h(3)
  have all: "\<forall>i<length [spec_a_txt, spec_c_raw]. \<exists>zi ci nm dout.
            zip_write_files toy_env (Some ''pw'') 0 (take i [spec_a_txt, spec_c_raw]) ([], []) = Inr (zi, ci)
          \<and> name ([spec_a_txt, spec_c_raw] ! i) = Some nm
          \<and> deflate_raw toy_env (data ([spec_a_txt, spec_c_raw] ! i)) = Inr dout
          \<and> (rd_le zip_a_c_aes (length zi) 4 :: 32 word) = 0x04034b50
          \<and> (rd_le zip_a_c_aes (length zi + 4) 2 :: 16 word) \<ge> 51
          \<and> (rd_le zip_a_c_aes (length zi + 6) 2 :: 16 word) AND 1 = 1
          \<and> (rd_le zip_a_c_aes (length zi + 8) 2 :: 16 word) = 99
          \<and> (rd_le zip_a_c_aes (length zi + 14) 4 :: 32 word) = 0
          \<and> (rd_le zip_a_c_aes (length zi + 26) 2 :: 16 word) = word_of_nat (length nm)
          \<and> (rd_le zip_a_c_aes (length zi + 28) 2 :: 16 word) = 11
          \<and> take (length nm) (drop (length zi + 30) zip_a_c_aes) = map byte_of_char nm
          \<and> (rd_le zip_a_c_aes (length zi + 30 + length nm) 2 :: 16 word) = 0x9901
          \<and> (rd_le zip_a_c_aes (length zi + 30 + length nm + 2) 2 :: 16 word) = 7
          \<and> (rd_le zip_a_c_aes (length zi + 30 + length nm + 4) 2 :: 16 word) = 0x0002
          \<and> take 3 (drop (length zi + 30 + length nm + 6) zip_a_c_aes)
              = [byte_of_char CHR ''A'', byte_of_char CHR ''E'', 0x03]
          \<and> (rd_le zip_a_c_aes (length zi + 30 + length nm + 9) 2 :: 16 word)
              = (if length dout \<ge> length (data ([spec_a_txt, spec_c_raw] ! i)) then 0 else 8)"
    by auto
  from all [rule_format, of 0]
  have e0: "(rd_le zip_a_c_aes 0 4 :: 32 word) = 0x04034b50
   \<and> (rd_le zip_a_c_aes 8 2 :: 16 word) = 99
   \<and> (rd_le zip_a_c_aes 14 4 :: 32 word) = 0
   \<and> (rd_le zip_a_c_aes (30 + 5) 2 :: 16 word) = 0x9901
   \<and> (rd_le zip_a_c_aes (30 + 5 + 9) 2 :: 16 word) = 8"
    by (auto simp: d)
  from all [rule_format, of 1]
  have e1: "(rd_le zip_a_c_aes 77 4 :: 32 word) = 0x04034b50
   \<and> (rd_le zip_a_c_aes (77 + 8) 2 :: 16 word) = 99
   \<and> (rd_le zip_a_c_aes (77 + 14) 4 :: 32 word) = 0
   \<and> (rd_le zip_a_c_aes (77 + 30 + 1) 2 :: 16 word) = 0x9901
   \<and> (rd_le zip_a_c_aes (77 + 30 + 1 + 9) 2 :: 16 word) = 0"
    by (auto simp: d written_a_aes_entry l simp del: zip_write_files.simps)
  from toy_env_reliable h v written_a_c_aes e0 e1 show ?thesis
    by (intro conjI) simp_all
qed


section \<open>Properties of the ZIP reader\<close>

lemma try_utf_fname: "\<exists>y. fname (rspamd_archive_file_try_utf cenv fe inp) = Some y"
  by (simp add: rspamd_archive_file_try_utf_def Let_def split: option.splits)

lemma zip_cd_file_fname: "\<exists>y. fname (zip_cd_file cenv buf cd) = Some y"
  using try_utf_fname by (simp add: zip_cd_file_def Let_def)

lemma zip_walk_cd_short:
  "cd < bound \<Longrightarrow> int eocd - int cd < 46 \<Longrightarrow> zip_walk_cd cenv buf eocd bound cd arch = Inl BadCdRecord"
  by (subst zip_walk_cd.simps) simp

lemma zip_walk_cd_step:
  assumes "cd < bound" "cd + 46 \<le> eocd" "take 4 (drop cd buf) = [0x50, 0x4b, 0x01, 0x02]"
    and "cd + cd_record_len buf cd \<le> eocd"
  shows "zip_walk_cd cenv buf eocd bound cd arch =
     zip_walk_cd cenv buf eocd bound (cd + cd_record_len buf cd)
       (arch\<lparr>files := files arch @ [zip_cd_file cenv buf cd],
             arch_has_obfuscated_files :=
               arch_has_obfuscated_files arch \<or> file_obfuscated (zip_cd_file cenv buf cd)\<rparr>)"
  using assms zip_cd_file_fname [of cenv buf cd]
  by (subst zip_walk_cd.simps) (auto simp: Let_def)

lemma zip_walk_cd_done: "\<not> cd < bound \<Longrightarrow> zip_walk_cd cenv buf eocd bound cd arch = Inr arch"
  by (subst zip_walk_cd.simps) simp

subsection \<open>The extent of the central directory\<close>

lemma wrapped_length: "length zip_wrapped_extent = 71"
  by (simp add: zip_wrapped_extent_def)

lemma wrapped_eocd: "zip_find_eocd zip_wrapped_extent 49 0 = Some 49"
  by (simp add: zip_find_eocd.simps zip_wrapped_extent_def rd_le_def)

lemma wrapped_record_len: "cd_record_len zip_wrapped_extent 2 = 47"
  by (simp add: cd_record_len_def cd_fname_len_def cd_extra_len_def cd_comment_len_def rd_le_def zip_wrapped_extent_def)

lemma wrapped_magic: "take 4 (drop 2 zip_wrapped_extent) = [0x50, 0x4b, 0x01, 0x02]"
  by (simp add: zip_wrapped_extent_def)

lemma wrapped_fields: "(rd_le zip_wrapped_extent 61 4 :: 32 word) = 0xFFFFFFFE"
  "(rd_le zip_wrapped_extent 65 4 :: 32 word) = 2"
  by (simp_all add: zip_wrapped_extent_def rd_le_def)

text \<open>
  C5. The sum \<open>cd_offset + cd_size\<close> is computed in 32 bits. In the input
  \<open>zip_wrapped_extent\<close> the end record is found at offset 49 and the two fields add up
  to \<open>2^32\<close>, far beyond it, yet the extent check lets the input pass: the reader
  walks the central directory at \<open>cd_offset\<close>, builds the entry of the record there, and
  gives up only at the next record, with the log line of a bad record.
\<close>

theorem C5_wrapped_extent_reaches_walk:
  "zip_find_eocd zip_wrapped_extent (int (length zip_wrapped_extent) - 1 - 21) 0 = Some 49
   \<and> unat (rd_le zip_wrapped_extent (49 + 16) 4 :: 32 word)
       + unat (rd_le zip_wrapped_extent (49 + 12) 4 :: 32 word) = 2 ^ 32
   \<and> zip_parse cenv (part_of zip_wrapped_extent None) = Inl BadCdRecord"
proof -
  have "zip_walk_cd cenv zip_wrapped_extent 49 4294967296 2 arch = Inl BadCdRecord" for arch
    using zip_walk_cd_step [of 2 4294967296 49 zip_wrapped_extent cenv arch]
    by (simp add: wrapped_record_len wrapped_magic zip_walk_cd_short)
  then have "zip_parse cenv (part_of zip_wrapped_extent None) = Inl BadCdRecord"
    by (simp add: zip_parse_def part_of_def wrapped_length wrapped_eocd Let_def wrapped_fields)
  then show ?thesis
    by (simp add: wrapped_length wrapped_eocd wrapped_fields)
qed

subsection \<open>The encryption flag of an entry\<close>

lemma trailing_length: "length zip_trailing_0017 = 73"
  by (simp add: zip_trailing_0017_def)

lemma trailing_eocd: "zip_find_eocd zip_trailing_0017 51 0 = Some 51"
  by (simp add: zip_find_eocd.simps zip_trailing_0017_def rd_le_def)

lemma trailing_record: "cd_fname_len zip_trailing_0017 0 = 1" "cd_extra_len zip_trailing_0017 0 = 4"
   "cd_comment_len zip_trailing_0017 0 = 0" "cd_flags zip_trailing_0017 0 = 0"
  by (simp_all add: cd_fname_len_def cd_extra_len_def cd_comment_len_def cd_flags_def rd_le_def zip_trailing_0017_def)

lemma trailing_magic: "take 4 (drop 0 zip_trailing_0017) = [0x50, 0x4b, 0x01, 0x02]"
  by (simp add: zip_trailing_0017_def)

lemma trailing_fields: "(rd_le zip_trailing_0017 63 4 :: 32 word) = 51"
  "(rd_le zip_trailing_0017 67 4 :: 32 word) = 0"
  by (simp_all add: zip_trailing_0017_def rd_le_def)

lemma trailing_walk: "\<not> zip_extra_walk zip_trailing_0017 51 47 False"
  by (simp add: zip_extra_walk.simps)

lemma trailing_flag: "\<not> file_encrypted (zip_cd_file cenv zip_trailing_0017 0)"
  by (simp add: zip_cd_file_def Let_def trailing_record trailing_walk rspamd_archive_file_try_utf_def new_file_def split: option.splits)

lemma trailing_records: "zip_extra_records (take (cd_extra_len zip_trailing_0017 0) (drop (46 + cd_fname_len zip_trailing_0017 0) zip_trailing_0017)) = [(0x0017, [])]"
  apply (simp add: trailing_record)
  apply (simp add: zip_trailing_0017_def)
  apply (subst zip_extra_records.simps)
  apply (simp add: rd_le_def)
  apply (subst zip_extra_records.simps)
  apply simp
  done

text \<open>
  C6. The walk over the extra fields goes on while \<open>p + 4 < extra + extra_len\<close>, so a
  record whose four-byte header ends the extra area is never looked at. In the input
  \<open>zip_trailing_0017\<close> the only record has flags 0 and an extra area that is exactly one
  record with id \<open>0x0017\<close> and an empty payload; the archive is accepted and its entry
  is not marked encrypted.
\<close>

theorem C6_trailing_0017_record_missed:
  "cd_flags zip_trailing_0017 0 AND 0x41 = 0
   \<and> zip_extra_records (take (cd_extra_len zip_trailing_0017 0)
         (drop (46 + cd_fname_len zip_trailing_0017 0) zip_trailing_0017)) = [(0x0017, [])]
   \<and> (\<exists>a. zip_parse cenv (part_of zip_trailing_0017 None) = Inr a
          \<and> map file_encrypted (files a) = [False])"
proof -
  have "zip_walk_cd cenv zip_trailing_0017 51 51 0 arch =
     Inr (arch\<lparr>files := files arch @ [zip_cd_file cenv zip_trailing_0017 0],
             arch_has_obfuscated_files :=
               arch_has_obfuscated_files arch
               \<or> file_obfuscated (zip_cd_file cenv zip_trailing_0017 0)\<rparr>)" for arch
    using zip_walk_cd_step [of 0 51 51 zip_trailing_0017 cenv arch] trailing_magic
    by (simp add: cd_record_len_def trailing_record zip_walk_cd_done)
  then have "\<exists>a. zip_parse cenv (part_of zip_trailing_0017 None) = Inr a
     \<and> map file_encrypted (files a) = [False]"
    by (simp add: zip_parse_def part_of_def trailing_length trailing_eocd Let_def trailing_fields new_archive_def trailing_flag)
  with trailing_records show ?thesis
    by (simp add: trailing_record)
qed

subsection \<open>From the writer to the reader\<close>

lemma files_plain_cd:
  "zip_write_files env None i fs (zb, cd) = Inr (zn, cn) \<Longrightarrow> length zn < 2 ^ 32
   \<Longrightarrow> \<exists>recs. cn = cd @ concat recs \<and> list_all2 (cd_record_for env) fs recs"
proof (induction fs arbitrary: i zb cd)
  case Nil
  then show ?case by simp
next
  case (Cons f fs)
  from Cons.prems(1) obtain z1 c1 where e: "zip_write_entry env None i (zb, cd) f = Inr (z1, c1)"
    and r: "zip_write_files env None (Suc i) fs (z1, c1) = Inr (zn, cn)"
    by (auto split: sum.splits)
  from files_len [OF r] Cons.prems(2) have z1: "length z1 < 2 ^ 32" by simp
  from e obtain nm where nm: "name f = Some nm"
    and p: "zip_write_entry_plain env zb cd f nm = Inr (z1, c1)"
    by (auto simp: zip_write_entry_def split: option.splits if_splits)
  from plain_entry_shape [OF p z1] obtain out where
    c1: "c1 = cd @ plain_cd_record env f nm out (word_of_nat (length zb))" by blast
  from Cons.IH [OF r Cons.prems(2)] obtain recs where
    recs: "cn = c1 @ concat recs" "list_all2 (cd_record_for env) fs recs" by blast
  have "cd_record_for env f (plain_cd_record env f nm out (word_of_nat (length zb)))"
    using nm by (auto simp: cd_record_for_def)
  with recs c1 have "cn = cd @ concat (plain_cd_record env f nm out (word_of_nat (length zb)) # recs)
     \<and> list_all2 (cd_record_for env) (f # fs)
          (plain_cd_record env f nm out (word_of_nat (length zb)) # recs)"
    by simp
  then show ?case by blast
qed

lemma u32le_cd_magic: "u32le 0x02014b50 = [0x50, 0x4b, 0x01, 0x02]"
  by (simp add: u32le_def rspamd_ba_append_u32le_def)

lemma central_header_fields:
  fixes pre post :: "byte list" and env nm v g m t crc cs us lo md el
  defines "buf \<equiv> pre @ rspamd_zip_write_central_header env [] nm v g m t crc cs us lo md el @ post"
  defines "cd \<equiv> length pre"
  shows "take 4 (drop cd buf) = u32le 0x02014b50"
    and "cd_flags buf cd = g"
    and "cd_comp_size buf cd = cs"
    and "cd_uncomp_size buf cd = us"
    and "rd_le buf (cd + 28) 2 = (word_of_nat (length nm) :: 16 word)"
    and "rd_le buf (cd + 30) 2 = el"
    and "cd_comment_len buf cd = 0"
    and "take (length nm) (drop (cd + 46) buf) = map byte_of_char nm"
    and "length (rspamd_zip_write_central_header env [] nm v g m t crc cs us lo md el) = 46 + length nm"
  unfolding buf_def cd_def write_central_header_eq
    cd_flags_def cd_comp_size_def cd_uncomp_size_def cd_comment_len_def
  by (simp_all add: rd_le_append_skip rd_le_append_here)

lemma unat_len16: "n < 2 ^ 16 \<Longrightarrow> unat (word_of_nat n :: 16 word) = n"
  by (simp add: unat_of_nat)

lemma zip_extra_walk_empty: "zip_extra_walk buf p p enc = enc"
  by (subst zip_extra_walk.simps) simp

lemma try_utf_encrypted:
  "file_encrypted (rspamd_archive_file_try_utf cenv fe inp) = file_encrypted fe"
  by (simp add: rspamd_archive_file_try_utf_def Let_def split: option.splits)

lemma plain_record_entry:
  assumes "cd_record_for env f rec" and "\<And>nm. name f = Some nm \<Longrightarrow> length nm < 2 ^ 16"
  shows "take 4 (drop (length pre) (pre @ rec @ post)) = [0x50, 0x4b, 0x01, 0x02]"
    and "cd_record_len (pre @ rec @ post) (length pre) = length rec"
    and "46 \<le> length rec"
    and "entry_for cenv f (zip_cd_file cenv (pre @ rec @ post) (length pre))"
proof -
  from assms(1) obtain nm out lo where nm: "name f = Some nm"
    and rec: "rec = plain_cd_record env f nm out lo"
    by (auto simp: cd_record_for_def)
  from assms(2) [OF nm] have n: "length nm < 2 ^ 16" .
  define m :: "16 word" where "m = (if length (data f) \<le> length out then 0 else 8)"
  define cs :: "32 word" where
    "cs = word_of_nat (if length (data f) \<le> length out then length (data f) else length out)"
  have rec': "rec = rspamd_zip_write_central_header env [] nm 20 (push_bit 11 1) m (mtime f)
      (crc32 env (data f)) cs (word_of_nat (length (data f))) lo (mode f) 0"
    by (simp add: rec plain_cd_record_def Let_def m_def cs_def)
  note F = central_header_fields(1-8) [where pre = pre and post = post and env = env and nm = nm
      and v = 20 and g = "push_bit 11 1" and m = m and t = "mtime f" and crc = "crc32 env (data f)"
      and cs = cs and us = "word_of_nat (length (data f))" and lo = lo and md = "mode f" and el = 0,
      folded rec']
  note L = central_header_fields(9) [where env = env and nm = nm
      and v = 20 and g = "push_bit 11 1" and m = m and t = "mtime f" and crc = "crc32 env (data f)"
      and cs = cs and us = "word_of_nat (length (data f))" and lo = lo and md = "mode f" and el = 0,
      folded rec']
  have fl: "cd_fname_len (pre @ rec @ post) (length pre) = length nm"
    by (simp add: cd_fname_len_def F unat_len16 [OF n])
  have el: "cd_extra_len (pre @ rec @ post) (length pre) = 0"
    by (simp add: cd_extra_len_def F)
  show "take 4 (drop (length pre) (pre @ rec @ post)) = [0x50, 0x4b, 0x01, 0x02]"
    using F(1) by (simp add: u32le_cd_magic)
  show "cd_record_len (pre @ rec @ post) (length pre) = length rec"
    by (simp add: cd_record_len_def fl el F L)
  show "46 \<le> length rec"
    by (simp add: L)
  have fe: "zip_cd_file cenv (pre @ rec @ post) (length pre) =
      (rspamd_archive_file_try_utf cenv new_file (map byte_of_char nm))
        \<lparr>compressed_size := ucast cs,
         uncompressed_size := ucast (word_of_nat (length (data f)) :: 32 word)\<rparr>"
    unfolding zip_cd_file_def Let_def fl el F
    by (simp add: zip_extra_walk_empty)
  show "entry_for cenv f (zip_cd_file cenv (pre @ rec @ post) (length pre))"
    unfolding entry_for_def fe
    by (rule exI [of _ nm]) (simp add: nm try_utf_encrypted new_file_def)
qed

lemma walk_written_records:
  assumes "list_all2 (cd_record_for env) fs recs"
    and "\<forall>f\<in>set fs. \<forall>nm. name f = Some nm \<longrightarrow> length nm < 2 ^ 16"
  shows "\<exists>a fl. zip_walk_cd cenv (pre @ concat recs @ post) (length pre + length (concat recs))
             (length pre + length (concat recs)) (length pre) arch = Inr a
           \<and> files a = files arch @ fl \<and> list_all2 (entry_for cenv) fs fl"
  using assms
proof (induction fs recs arbitrary: pre arch rule: list_all2_induct)
  case Nil
  then show ?case by (simp add: zip_walk_cd_done)
next
  case (Cons f fs rec recs)
  let ?buf = "pre @ rec @ concat recs @ post"
  let ?eocd = "length pre + (length rec + length (concat recs))"
  have nmlen: "\<And>nm. name f = Some nm \<Longrightarrow> length nm < 2 ^ 16"
    using Cons.prems by auto
  note R12 = plain_record_entry(1,2) [OF Cons.hyps(1) nmlen, where pre = pre
      and post = "concat recs @ post"]
  note R3 = plain_record_entry(3) [OF Cons.hyps(1) nmlen]
  note R4 = plain_record_entry(4) [OF Cons.hyps(1) nmlen, where pre = pre
      and post = "concat recs @ post" and cenv = cenv]
  have c1: "length pre < ?eocd" using R3 by linarith
  have c2: "length pre + 46 \<le> ?eocd" using R3 by linarith
  have c4: "length pre + cd_record_len ?buf (length pre) \<le> ?eocd" by (simp add: R12(2))
  note step = zip_walk_cd_step [OF c1 c2 R12(1) c4, of cenv arch, unfolded R12(2)]
  have "\<forall>f\<in>set fs. \<forall>nm. name f = Some nm \<longrightarrow> length nm < 2 ^ 16"
    using Cons.prems by simp
  from Cons.IH [OF this, of "pre @ rec"
      "arch\<lparr>files := files arch @ [zip_cd_file cenv ?buf (length pre)],
             arch_has_obfuscated_files :=
               arch_has_obfuscated_files arch \<or> file_obfuscated (zip_cd_file cenv ?buf (length pre))\<rparr>"]
  obtain a fl where a: "zip_walk_cd cenv ?buf ?eocd ?eocd (length pre + length rec)
       (arch\<lparr>files := files arch @ [zip_cd_file cenv ?buf (length pre)],
             arch_has_obfuscated_files :=
               arch_has_obfuscated_files arch \<or> file_obfuscated (zip_cd_file cenv ?buf (length pre))\<rparr>)
       = Inr a"
    and fl: "files a = (files arch @ [zip_cd_file cenv ?buf (length pre)]) @ fl"
      "list_all2 (entry_for cenv) fs fl"
    by (auto simp: add.assoc)
  from step a have "zip_walk_cd cenv ?buf ?eocd ?eocd (length pre) arch = Inr a"
    by (simp add: R12(2))
  moreover have "files a = files arch @ (zip_cd_file cenv ?buf (length pre) # fl)"
    using fl(1) by simp
  moreover have "list_all2 (entry_for cenv) (f # fs) (zip_cd_file cenv ?buf (length pre) # fl)"
    using R4 fl(2) by simp
  ultimately show ?case
    by (simp add: add.assoc)
qed

lemma u32le_eocd_magic: "le_word (u32le 0x06054b50) = (0x06054b50 :: 32 word)"
  by simp

lemma zip_parse_written:
  fixes zn cn :: "byte list" and n1 n2 :: "16 word"
  defines "eocd \<equiv> u32le 0x06054b50 @ u16le 0 @ u16le 0 @ u16le n1 @ u16le n2
      @ u32le (word_of_nat (length cn)) @ u32le (word_of_nat (length zn)) @ u16le 0"
  assumes len: "length (zn @ cn @ eocd) < 2 ^ 32" and ne: "4 < length zn + length cn"
  shows "zip_parse cenv (part_of (zn @ cn @ eocd) fn) =
     zip_walk_cd cenv (zn @ cn @ eocd) (length zn + length cn) (length zn + length cn) (length zn)
       (new_archive RSPAMD_ARCHIVE_ZIP fn)"
proof -
  have ltl: "length eocd = 22" by (simp add: eocd_def)
  have l: "int (length (zn @ cn @ eocd)) - 1 - 21 = int (length zn + length cn)"
    by (simp add: ltl)
  have lb: "length zn + length cn < 2 ^ 32" "length zn < 2 ^ 32" "length cn < 2 ^ 32"
    using len by simp_all
  have rd: "rd_le (zn @ cn @ eocd) (length zn + length cn + k) n = rd_le eocd k n" for k n
    by (simp add: rd_le_def)
  have rd0: "rd_le (zn @ cn @ eocd) (length zn + length cn) n = rd_le eocd 0 n" for n
    using rd [of 0 n] by simp
  have sig: "(rd_le eocd 0 4 :: 32 word) = 0x06054b50"
    unfolding eocd_def by (simp add: rd_le_append_here)
  have csz: "(rd_le eocd 12 4 :: 32 word) = word_of_nat (length cn)"
    unfolding eocd_def by (simp add: rd_le_append_skip rd_le_append_here)
  have cof: "(rd_le eocd 16 4 :: 32 word) = word_of_nat (length zn)"
    unfolding eocd_def by (simp add: rd_le_append_skip rd_le_append_here)
  have find: "zip_find_eocd (zn @ cn @ eocd) (int (length zn + length cn)) 0 = Some (int (length zn + length cn))"
    using ne by (subst zip_find_eocd.simps) (simp add: rd0 sig del: of_nat_add)
  have sum: "(word_of_nat (length zn) :: 32 word) + word_of_nat (length cn)
      = word_of_int (int (length zn + length cn))"
    by simp
  show ?thesis
    unfolding zip_parse_def Let_def
    apply (simp only: part_of_def mime_part.simps l find option.case)
    apply (simp add: ltl rd csz cof unat_len32 lb del: of_nat_add)
    apply (simp only: unat_len32 [OF lb(2)] unat_len32 [OF lb(3)])
    apply simp
    done
qed

lemma entry_for_nth:
  assumes "list_all2 (entry_for cenv) fs fl" and "i < length fs"
    and "length (data (fs ! i)) < 2 ^ 32"
    and "\<And>nm. name (fs ! i) = Some nm \<Longrightarrow>
       fname (rspamd_archive_file_try_utf cenv new_file (map byte_of_char nm))
         = Some (map byte_of_char nm)"
  shows "fname (fl ! i) = map_option (map byte_of_char) (name (fs ! i))"
    and "unat (uncompressed_size (fl ! i)) = length (data (fs ! i))"
proof -
  from assms(1,2) have e: "entry_for cenv (fs ! i) (fl ! i)"
    by (simp add: list_all2_nthD)
  then obtain nm where nm: "name (fs ! i) = Some nm"
    and fn: "fname (fl ! i) = fname (rspamd_archive_file_try_utf cenv new_file (map byte_of_char nm))"
    and us: "uncompressed_size (fl ! i) = ucast (word_of_nat (length (data (fs ! i))) :: 32 word)"
    by (auto simp: entry_for_def)
  show "fname (fl ! i) = map_option (map byte_of_char) (name (fs ! i))"
    by (simp add: fn nm assms(4) [OF nm])
  have "unat (ucast (word_of_nat (length (data (fs ! i))) :: 32 word) :: 64 word)
      = unat (word_of_nat (length (data (fs ! i))) :: 32 word)"
    by transfer simp
  then show "unat (uncompressed_size (fl ! i)) = length (data (fs ! i))"
    by (simp add: us unat_len32 [OF assms(3)])
qed

text \<open>
  Within the ranges of the fields of the format the archive is read back. Let the
  writer succeed without a password on an archive below 4 GiB, every entry with less
  than 4 GiB of data and a name below 64 KiB that the file name normaliser returns as
  it is. Then the ZIP reader accepts the archive and attaches it, with one file for
  each entry, in the order of the entries: the \<open>i\<close>-th file has the name of the
  \<open>i\<close>-th entry, and the length of its data as uncompressed size.
\<close>

lemma zip_round_trip_in_range:
  assumes w: "rspamd_archives_zip_write env specs None = Inr out"
    and len: "length out < 2 ^ 32"
    and dat: "\<forall>f\<in>set specs. length (data f) < 2 ^ 32"
    and nms: "\<forall>f\<in>set specs. \<forall>nm. name f = Some nm \<longrightarrow> length nm < 2 ^ 16
        \<and> fname (rspamd_archive_file_try_utf cenv new_file (map byte_of_char nm))
            = Some (map byte_of_char nm)"
  shows "\<exists>a. zip_parse cenv (part_of out fn) = Inr a
      \<and> rspamd_archive_process_zip cenv (part_of out fn) = attach (part_of out fn) a
      \<and> length (files a) = length specs
      \<and> (\<forall>i<length specs.
            fname (files a ! i) = map_option (map byte_of_char) (name (specs ! i))
          \<and> unat (uncompressed_size (files a ! i)) = length (data (specs ! i)))"
proof -
  define eocd where "eocd cn zn = u32le 0x06054b50 @ u16le 0 @ u16le 0
      @ u16le (word_of_nat (length specs)) @ u16le (word_of_nat (length specs))
      @ u32le (word_of_nat (length cn)) @ u32le (word_of_nat (length zn)) @ u16le 0"
    for cn zn :: "byte list"
  from zip_write_Inr [OF w] obtain zn cn where
    fs: "zip_write_files env None 0 specs ([], []) = Inr (zn, cn)" and ne: "specs \<noteq> []"
    and out: "out = zn @ cn @ eocd cn zn"
    unfolding eocd_def by blast
  from len have zl: "length zn < 2 ^ 32" by (simp add: out)
  from files_plain_cd [OF fs zl] obtain recs where
    cn: "cn = concat recs" and recs: "list_all2 (cd_record_for env) specs recs"
    by auto
  have nml: "\<forall>f\<in>set specs. \<forall>nm. name f = Some nm \<longrightarrow> length nm < 2 ^ 16"
    using nms by blast
  from ne recs obtain f fs' r rs where sp: "specs = f # fs'" and rr: "recs = r # rs"
    and fr: "cd_record_for env f r"
    by (cases specs; cases recs) auto
  have "46 \<le> length r"
    by (rule plain_record_entry(3) [OF fr]) (use nml sp in auto)
  then have big: "4 < length zn + length cn"
    by (simp add: cn rr)
  have p: "zip_parse cenv (part_of out fn) =
      zip_walk_cd cenv out (length zn + length cn) (length zn + length cn) (length zn)
        (new_archive RSPAMD_ARCHIVE_ZIP fn)"
    unfolding out eocd_def
    by (rule zip_parse_written) (use len big in \<open>simp_all add: out eocd_def\<close>)
  from walk_written_records [OF recs nml, where pre = zn and post = "eocd cn zn" and cenv = cenv
      and arch = "new_archive RSPAMD_ARCHIVE_ZIP fn"]
  obtain a fl where wk: "zip_walk_cd cenv out (length zn + length cn) (length zn + length cn)
        (length zn) (new_archive RSPAMD_ARCHIVE_ZIP fn) = Inr a"
    and fa: "files a = fl" and al: "list_all2 (entry_for cenv) specs fl"
    by (auto simp: out cn new_archive_def)
  have pa: "zip_parse cenv (part_of out fn) = Inr a"
    by (simp add: p wk)
  have ll: "length (files a) = length specs"
    using al by (simp add: fa list_all2_lengthD)
  have ix: "fname (files a ! i) = map_option (map byte_of_char) (name (specs ! i))
          \<and> unat (uncompressed_size (files a ! i)) = length (data (specs ! i))"
    if i: "i < length specs" for i
  proof -
    from i have m: "specs ! i \<in> set specs" by simp
    from dat m have d: "length (data (specs ! i)) < 2 ^ 32" by blast
    have k: "\<And>nm. name (specs ! i) = Some nm \<Longrightarrow>
       fname (rspamd_archive_file_try_utf cenv new_file (map byte_of_char nm))
         = Some (map byte_of_char nm)"
      using nms m by blast
    from entry_for_nth [OF al i d k] show ?thesis by (simp add: fa)
  qed
  show ?thesis
    apply (rule exI [of _ a])
    apply (simp only: pa rspamd_archive_process_zip_def sum.case ll)
    apply (simp add: ix)
    done
qed

lemma zip_round_trip_a_b:
  "rspamd_archives_zip_write toy_env [spec_a_txt, spec_b_bin] None = Inr zip_a_b_plain
   \<and> length zip_a_b_plain < 2 ^ 32
   \<and> length (data spec_a_txt) < 2 ^ 32 \<and> length (data spec_b_bin) < 2 ^ 32
   \<and> fname (rspamd_archive_file_try_utf toy_cenv new_file (map byte_of_char ''a.txt''))
        = Some (map byte_of_char ''a.txt'')
   \<and> fname (rspamd_archive_file_try_utf toy_cenv new_file (map byte_of_char ''b.bin''))
        = Some (map byte_of_char ''b.bin'')
   \<and> (\<exists>a. rspamd_archive_process_zip toy_cenv (part_of zip_a_b_plain None)
            = attach (part_of zip_a_b_plain None) a
          \<and> map (\<lambda>e. (fname e, unat (uncompressed_size e))) (files a)
            = [(Some (map byte_of_char ''a.txt''), 5), (Some (map byte_of_char ''b.bin''), 3)])"
proof -
  have l: "length zip_a_b_plain < 2 ^ 32"
    by (simp add: zip_a_b_plain_def)
  have d: "length (data spec_a_txt) < 2 ^ 32" "length (data spec_b_bin) < 2 ^ 32"
    by (simp_all add: spec_a_txt_def spec_b_bin_def)
  have n: "fname (rspamd_archive_file_try_utf toy_cenv new_file (map byte_of_char ''a.txt''))
        = Some (map byte_of_char ''a.txt'')"
    "fname (rspamd_archive_file_try_utf toy_cenv new_file (map byte_of_char ''b.bin''))
        = Some (map byte_of_char ''b.bin'')"
    by code_simp+
  have nl: "length ''a.txt'' < 2 ^ 16" "length ''b.bin'' < 2 ^ 16"
    by simp_all
  have h1: "\<forall>f\<in>set [spec_a_txt, spec_b_bin]. length (data f) < 2 ^ 32"
    using d by simp
  have h2: "\<forall>f\<in>set [spec_a_txt, spec_b_bin]. \<forall>nm. name f = Some nm \<longrightarrow> length nm < 2 ^ 16
        \<and> fname (rspamd_archive_file_try_utf toy_cenv new_file (map byte_of_char nm))
            = Some (map byte_of_char nm)"
    using n nl by (simp add: spec_a_txt_def spec_b_bin_def)
  from zip_round_trip_in_range [OF written_a_b_plain l h1 h2, of None]
  obtain a where p: "rspamd_archive_process_zip toy_cenv (part_of zip_a_b_plain None)
            = attach (part_of zip_a_b_plain None) a"
    and ln: "length (files a) = 2"
    and ix: "\<forall>i<2. fname (files a ! i) = map_option (map byte_of_char) (name ([spec_a_txt, spec_b_bin] ! i))
          \<and> unat (uncompressed_size (files a ! i)) = length (data ([spec_a_txt, spec_b_bin] ! i))"
    by auto
  from ln obtain x y where xy: "files a = [x, y]"
    by (cases "files a"; cases "tl (files a)") auto
  from ix [rule_format, of 0] ix [rule_format, of 1]
  have m: "map (\<lambda>e. (fname e, unat (uncompressed_size e))) (files a)
            = [(Some (map byte_of_char ''a.txt''), 5), (Some (map byte_of_char ''b.bin''), 3)]"
    by (simp add: xy spec_a_txt_def spec_b_bin_def)
  note r = exI [of "\<lambda>a. rspamd_archive_process_zip toy_cenv (part_of zip_a_b_plain None)
            = attach (part_of zip_a_b_plain None) a
          \<and> map (\<lambda>e. (fname e, unat (uncompressed_size e))) (files a)
            = [(Some (map byte_of_char ''a.txt''), 5), (Some (map byte_of_char ''b.bin''), 3)]" a,
       OF conjI [OF p m]]
  show ?thesis
    by (intro conjI written_a_b_plain l d n r)
qed


subsection \<open>A name that does not fit its length field\<close>

lemma long_name_length: "length long_name = 65536"
  by (simp add: long_name_def)

lemma long_name_take: "take 4 long_name = ''aaaa''"
proof -
  have "take 4 long_name = replicate 4 CHR ''a''"
    by (simp add: long_name_def)
  also have "\<dots> = ''aaaa''"
    by (simp add: numeral_eq_Suc)
  finally show ?thesis .
qed

lemma long_name_valid: "rspamd_zip_validate_name (Some long_name)"
proof -
  have s: "set long_name = {CHR ''a''}"
    by (simp add: long_name_def)
  have "\<not> (\<exists>a b. long_name = a @ ''..'' @ b)"
  proof
    assume "\<exists>a b. long_name = a @ ''..'' @ b"
    then obtain a b where "long_name = a @ ''..'' @ b" by blast
    then have "set long_name = set (a @ ''..'' @ b)" by simp
    with s show False by auto
  qed
  moreover have "hd long_name = CHR ''a''"
    by (simp add: long_name_def hd_replicate)
  moreover have "long_name \<noteq> []"
    using long_name_length by auto
  moreover have "CHR '':'' \<notin> set long_name"
    by (simp add: s)
  ultimately show ?thesis
    by (simp add: validate_name_iff)
qed

lemma long_name_record_rejected:
  assumes rec: "rec = plain_cd_record env f nm out lo"
    and z: "(word_of_nat (length nm) :: 16 word) = 0" and l: "4 \<le> length nm"
    and m: "take 4 (map byte_of_char nm) \<noteq> [0x50, 0x4b, 0x01, 0x02]"
  shows "zip_walk_cd cenv (pre @ rec @ post) (length pre + length rec) (length pre + length rec)
           (length pre) arch = Inl BadCdRecord"
proof -
  define md :: "16 word" where "md = (if length (data f) \<le> length out then 0 else 8)"
  define cs :: "32 word" where
    "cs = word_of_nat (if length (data f) \<le> length out then length (data f) else length out)"
  have rec': "rec = rspamd_zip_write_central_header env [] nm 20 (push_bit 11 1) md (mtime f)
      (crc32 env (data f)) cs (word_of_nat (length (data f))) lo (mode f) 0"
    by (simp add: rec plain_cd_record_def Let_def md_def cs_def)
  note F = central_header_fields(1-8) [where pre = pre and post = post and env = env and nm = nm
      and v = 20 and g = "push_bit 11 1" and m = md and t = "mtime f" and crc = "crc32 env (data f)"
      and cs = cs and us = "word_of_nat (length (data f))" and lo = lo and md = "mode f" and el = 0,
      folded rec']
  note L = central_header_fields(9) [where env = env and nm = nm
      and v = 20 and g = "push_bit 11 1" and m = md and t = "mtime f" and crc = "crc32 env (data f)"
      and cs = cs and us = "word_of_nat (length (data f))" and lo = lo and md = "mode f" and el = 0,
      folded rec']
  have fl: "cd_fname_len (pre @ rec @ post) (length pre) = 0"
    by (simp add: cd_fname_len_def F z)
  have el: "cd_extra_len (pre @ rec @ post) (length pre) = 0"
    by (simp add: cd_extra_len_def F)
  have rl: "cd_record_len (pre @ rec @ post) (length pre) = 46"
    by (simp add: cd_record_len_def fl el F)
  have mg: "take 4 (drop (length pre) (pre @ rec @ post)) = [0x50, 0x4b, 0x01, 0x02]"
    using F(1) by (simp add: u32le_cd_magic)
  have step: "zip_walk_cd cenv (pre @ rec @ post) (length pre + length rec) (length pre + length rec)
           (length pre) arch =
        zip_walk_cd cenv (pre @ rec @ post) (length pre + length rec) (length pre + length rec)
           (length pre + 46)
           (arch\<lparr>files := files arch @ [zip_cd_file cenv (pre @ rec @ post) (length pre)],
             arch_has_obfuscated_files :=
               arch_has_obfuscated_files arch \<or> file_obfuscated (zip_cd_file cenv (pre @ rec @ post) (length pre))\<rparr>)"
    using zip_walk_cd_step [where cd = "length pre" and buf = "pre @ rec @ post"
        and bound = "length pre + length rec" and eocd = "length pre + length rec"
        and cenv = cenv and arch = arch] mg l
    by (simp add: rl L)
  have "take 4 (drop (length pre + 46) (pre @ rec @ post))
      = take 4 (take (length nm) (drop (length pre + 46) (pre @ rec @ post)))"
    using l by (simp add: min_def)
  also have "\<dots> = take 4 (map byte_of_char nm)"
    by (simp only: F(8))
  finally have bad: "take 4 (drop (length pre + 46) (pre @ rec @ post)) \<noteq> [0x50, 0x4b, 0x01, 0x02]"
    using m by simp
  from l have ne: "nm \<noteq> []" by auto
  show ?thesis
    unfolding step
    using l bad ne by (subst zip_walk_cd.simps) (simp add: L)
qed

lemma long_name_written:
  "rspamd_archives_zip_write toy_env [spec_long_name] None =
     Inr (plain_entry_bytes toy_env spec_long_name long_name []
          @ plain_cd_record toy_env spec_long_name long_name [] 0
          @ u32le 0x06054b50 @ u16le 0 @ u16le 0 @ u16le 1 @ u16le 1
          @ u32le (word_of_nat (length (plain_cd_record toy_env spec_long_name long_name [] 0)))
          @ u32le (word_of_nat (length (plain_entry_bytes toy_env spec_long_name long_name [])))
          @ u16le 0)"
proof -
  have d: "deflate_raw toy_env (data spec_long_name) = Inr []"
    by (simp add: toy_env_def spec_long_name_def)
  have n: "name spec_long_name = Some long_name"
    by (simp add: spec_long_name_def)
  have "zip_write_entry_plain toy_env [] [] spec_long_name long_name =
      Inr ([] @ plain_entry_bytes toy_env spec_long_name long_name [],
           [] @ plain_cd_record toy_env spec_long_name long_name [] (word_of_nat (length ([] :: byte list))))"
    by (rule plain_entry_nf [OF _ d]) simp
  then have e: "zip_write_entry toy_env None 0 ([], []) spec_long_name =
      Inr (plain_entry_bytes toy_env spec_long_name long_name [],
           plain_cd_record toy_env spec_long_name long_name [] 0)"
    using long_name_valid by (simp add: zip_write_entry_def n)
  show ?thesis
    by (simp add: rspamd_archives_zip_write_def e Let_def append_u16le append_u32le)
qed

lemma long_name_lengths:
  "length (plain_entry_bytes toy_env spec_long_name long_name []) = 65566"
  "length (plain_cd_record toy_env spec_long_name long_name [] 0) = 65582"
  by (simp_all add: plain_entry_bytes_def plain_cd_record_def Let_def spec_long_name_def
      write_central_header_eq long_name_length)

text \<open>
  C1. The claim fails on a name of 65536 characters, which passes
  \<open>rspamd_zip_validate_name\<close>: the writer stores the length of a name in 16 bits and
  does not check it, so both headers give the name the length 0 and are followed by
  all of its bytes. The reader takes the central directory record for one of 46 bytes
  with an empty name, finds the bytes of the name where the next record should start,
  and rejects the archive the writer has just returned: nothing is attached.
\<close>

theorem C1_long_name_not_read_back:
  "rspamd_zip_validate_name (name spec_long_name)
   \<and> (\<exists>out. rspamd_archives_zip_write toy_env [spec_long_name] None = Inr out
         \<and> zip_parse toy_cenv (part_of out None) = Inl BadCdRecord
         \<and> rspamd_archive_process_zip toy_cenv (part_of out None) = part_of out None)"
proof -
  let ?zn = "plain_entry_bytes toy_env spec_long_name long_name []"
  let ?cn = "plain_cd_record toy_env spec_long_name long_name [] 0"
  let ?eocd = "u32le 0x06054b50 @ u16le 0 @ u16le 0 @ u16le 1 @ u16le 1
          @ u32le (word_of_nat (length ?cn)) @ u32le (word_of_nat (length ?zn)) @ u16le 0"
  have p: "zip_parse toy_cenv (part_of (?zn @ ?cn @ ?eocd) None) =
      zip_walk_cd toy_cenv (?zn @ ?cn @ ?eocd) (length ?zn + length ?cn) (length ?zn + length ?cn)
        (length ?zn) (new_archive RSPAMD_ARCHIVE_ZIP None)"
    by (rule zip_parse_written) (simp_all add: long_name_lengths)
  have t: "take 4 (map byte_of_char long_name) \<noteq> [0x50, 0x4b, 0x01, 0x02]"
    by (simp add: take_map long_name_take byte_of_char_def)
  have z: "(word_of_nat (length long_name) :: 16 word) = 0"
    by (simp add: long_name_length)
  have l4: "4 \<le> length long_name"
    by (simp add: long_name_length)
  have w: "zip_walk_cd toy_cenv (?zn @ ?cn @ ?eocd) (length ?zn + length ?cn) (length ?zn + length ?cn)
        (length ?zn) (new_archive RSPAMD_ARCHIVE_ZIP None) = Inl BadCdRecord"
    by (rule long_name_record_rejected [OF refl z l4 t])
  have r: "zip_parse toy_cenv (part_of (?zn @ ?cn @ ?eocd) None) = Inl BadCdRecord"
    by (simp only: p w)
  have a: "rspamd_archive_process_zip toy_cenv (part_of (?zn @ ?cn @ ?eocd) None)
      = part_of (?zn @ ?cn @ ?eocd) None"
    by (simp add: rspamd_archive_process_zip_def r)
  have v: "rspamd_zip_validate_name (name spec_long_name)"
    using long_name_valid by (simp add: spec_long_name_def)
  from long_name_written r a
  have "\<exists>out. rspamd_archives_zip_write toy_env [spec_long_name] None = Inr out
         \<and> zip_parse toy_cenv (part_of out None) = Inl BadCdRecord
         \<and> rspamd_archive_process_zip toy_cenv (part_of out None) = part_of out None"
    by blast
  with v show ?thesis by (rule conjI)
qed


section \<open>Properties of the gzip reader\<close>

lemma memchr_None_iff: "memchr s c = None \<longleftrightarrow> c \<notin> set s"
  by (induction s) auto

lemma memchr_append_first:
  "c \<notin> set a \<Longrightarrow> memchr (a @ c # b) c = Some (length a)"
  by (induction a) auto

lemma memchr_Some_iff:
  "memchr s c = Some i \<longleftrightarrow> (i < length s \<and> s ! i = c \<and> c \<notin> set (take i s))"
proof (induction s arbitrary: i)
  case Nil
  then show ?case by simp
next
  case (Cons b bs)
  show ?case
  proof (cases "b = c")
    case True
    then show ?thesis by (cases i) auto
  next
    case False
    then show ?thesis using Cons.IH by (cases i) auto
  qed
qed

lemma memrchr_append_last:
  "c \<notin> set b \<Longrightarrow> rspamd_memrchr (a @ c # b) c = Some (length a)"
proof -
  assume "c \<notin> set b"
  then have "memchr (rev b @ c # rev a) c = Some (length (rev b))"
    by (intro memchr_append_first) simp
  then show ?thesis by (simp add: rspamd_memrchr_def)
qed

lemma memrchr_None_iff: "rspamd_memrchr s c = None \<longleftrightarrow> c \<notin> set s"
  using memchr_None_iff [of "rev s" c]
  by (cases "memchr (rev s) c") (simp_all add: rspamd_memrchr_def)

lemma after_last_slash:
  "b \<notin> set base \<Longrightarrow> rev (takeWhile (\<lambda>x. x \<noteq> b) (rev (dir @ b # base))) = base"
proof -
  assume b: "b \<notin> set base"
  have "takeWhile (\<lambda>x. x \<noteq> b) (rev base @ b # rev dir) = rev base"
    using b by (subst takeWhile_append2) auto
  then show ?thesis by simp
qed

lemma gzip_fallback_name_eq:
  assumes fn: "fn = stem @ [dot] @ ext" and ext: "dot \<notin> set ext"
  shows "gzip_fallback_name fn =
     Some (if slash \<in> set stem \<and> slash \<notin> set ext
           then rev (takeWhile (\<lambda>b. b \<noteq> slash) (rev stem))
           else if dot \<in> set stem then stem else fn)"
proof -
  have ds: "dot \<noteq> slash" by (simp add: dot_def slash_def)
  have dotpos: "rspamd_memrchr fn dot = Some (length stem)"
    using ext by (simp add: fn memrchr_append_last)
  have first: "memchr fn dot = Some (length stem) \<longleftrightarrow> dot \<notin> set stem"
    by (simp add: memchr_Some_iff fn nth_append)
  have tk: "take (length stem) fn = stem"
    by (simp add: fn)
  consider (inner) "slash \<in> set stem" "slash \<notin> set ext"
    | (late) "slash \<in> set ext" | (none) "slash \<notin> set stem" "slash \<notin> set ext"
    by blast
  then show ?thesis
  proof cases
    case inner
    from inner(1) obtain dir base where stem: "stem = dir @ slash # base" and base: "slash \<notin> set base"
      by (meson split_list_last)
    have "slash \<notin> set (base @ dot # ext)"
      using base inner(2) ds by auto
    then have "rspamd_memrchr (dir @ slash # (base @ dot # ext)) slash = Some (length dir)"
      by (rule memrchr_append_last)
    then have sl: "rspamd_memrchr fn slash = Some (length dir)"
      by (simp add: fn stem)
    have "take (length stem - length dir - 1) (drop (length dir + 1) fn) = base"
      by (simp add: fn stem)
    moreover have "rev (takeWhile (\<lambda>b. b \<noteq> slash) (rev stem)) = base"
      unfolding stem using base by (rule after_last_slash)
    ultimately show ?thesis
      using inner by (simp add: gzip_fallback_name_def dotpos sl Let_def) (simp add: stem)
  next
    case late
    then obtain e1 e2 where e: "ext = e1 @ slash # e2" and e2: "slash \<notin> set e2"
      by (meson split_list_last)
    from e2 have "rspamd_memrchr ((stem @ dot # e1) @ slash # e2) slash = Some (length (stem @ dot # e1))"
      by (rule memrchr_append_last)
    then have sl: "rspamd_memrchr fn slash = Some (length stem + 1 + length e1)"
      by (simp add: fn e)
    show ?thesis
      using late first by (simp add: gzip_fallback_name_def dotpos sl Let_def tk)
  next
    case none
    then have "slash \<notin> set fn" using ds by (auto simp: fn)
    then have sl: "rspamd_memrchr fn slash = None"
      by (simp add: memrchr_None_iff)
    show ?thesis
      using none first by (simp add: gzip_fallback_name_def dotpos sl Let_def tk)
  qed
qed

text \<open>
  C9, as the reader is written. For a gzip input without the FNAME bit and a container
  name \<open>stem . ext\<close>, where \<open>ext\<close> has neither a dot nor a \<open>/\<close>, the archive gets exactly
  one entry. Its name is the part of \<open>stem\<close> after its last \<open>/\<close> when \<open>stem\<close> has one:
  the directory is stripped and the suffix dropped. Without any \<open>/\<close> the name is \<open>stem\<close>
  when \<open>stem\<close> has a dot of its own (the comment says \<open>something like foo.exe.gz\<close>), and the whole
  container name, suffix included, when the name has this one dot only (the comment
  says \<open>something like foo.gzz\<close>). Nothing is said of a name with a \<open>/\<close> behind its last dot.
\<close>

theorem C9_gzip_fallback_name:
  assumes "length buf > 10" and "take 2 buf = [0x1F, 0x8B]" and "buf ! 3 AND push_bit 3 1 = 0"
    and "fn = stem @ [dot] @ ext" and "dot \<notin> set ext" and "slash \<notin> set ext"
  shows "\<exists>a. gzip_parse cenv (part_of buf (Some fn)) = Inr a
     \<and> map fname (files a) =
         [Some (if slash \<in> set stem
                then rev (takeWhile (\<lambda>b. b \<noteq> slash) (rev stem))
                else if dot \<in> set stem then stem else fn)]"
  using assms(1-3) gzip_fallback_name_eq [OF assms(4,5)] assms(4,6)
  by (simp add: gzip_parse_def part_of_def Let_def new_archive_def new_file_def)


theorem C9_gzip_fallback_name_witness:
  "length gz_plain > 10 \<and> take 2 gz_plain = [0x1F, 0x8B] \<and> gz_plain ! 3 AND push_bit 3 1 = 0
   \<and> dot \<notin> set name_gz \<and> slash \<notin> set name_gz
   \<and> (\<exists>a. gzip_parse toy_cenv (part_of gz_plain (Some (name_dir_foo @ [dot] @ name_gz))) = Inr a
          \<and> map fname (files a) = [Some name_foo])"
proof -
  have h: "length gz_plain > 10" "take 2 gz_plain = [0x1F, 0x8B]"
    "gz_plain ! 3 AND push_bit 3 1 = 0" "dot \<notin> set name_gz" "slash \<notin> set name_gz"
    by (simp_all add: gz_plain_def name_gz_def dot_def slash_def)
  have n: "(if slash \<in> set name_dir_foo
            then rev (takeWhile (\<lambda>b. b \<noteq> slash) (rev name_dir_foo))
            else if dot \<in> set name_dir_foo then name_dir_foo
                 else name_dir_foo @ [dot] @ name_gz) = name_foo"
    by (simp add: name_dir_foo_def name_gz_def name_foo_def slash_def dot_def)
  from C9_gzip_fallback_name [OF h(1,2,3) refl h(4,5), where stem = name_dir_foo and cenv = toy_cenv]
  have "\<exists>a. gzip_parse toy_cenv (part_of gz_plain (Some (name_dir_foo @ [dot] @ name_gz))) = Inr a
          \<and> map fname (files a) = [Some name_foo]"
    unfolding n .
  with h show ?thesis by simp
qed

text \<open>
  The claim as it is stated fails on the container name \<open>foo.gz\<close>: the claim gives the
  entry the name \<open>foo\<close>, the reader gives it the name \<open>foo.gz\<close>.
\<close>

theorem C9_single_dot_name_kept_whole:
  "map_sum id (\<lambda>a. map fname (files a)) (gzip_parse toy_cenv (part_of gz_plain (Some name_foo_gz)))
     = Inr [Some name_foo_gz]
   \<and> claimed_gzip_fallback name_foo_gz = name_foo
   \<and> name_foo_gz \<noteq> name_foo"
  by (simp add: gzip_parse_def part_of_def gz_plain_def name_foo_gz_def name_foo_def Let_def
      gzip_fallback_name_def claimed_gzip_fallback_def rspamd_memrchr_def dot_def slash_def
      new_archive_def new_file_def)

section \<open>Properties of the RAR reader\<close>

lemma rar5_spin_length: "length rar5_spin = 37"
  by (simp add: rar5_spin_def)

lemmas rar_cursor_defs =
  rar_skip_bytes_def gsize_diff_def rar_read_vint_skip_def rar_read_uint16_def rar_read_uint32_def
  rspamd_archive_rar_read_vint_def

lemma rar5_spin_main: "rar5_main_head rar5_spin 8 arch = Some (Inr 16)"
  by (simp add: rar5_main_head_def rar_cursor_defs rar5_spin_def)

lemma rar5_spin_head: "rar5_record_head rar5_spin 16 c = Some (16, 21, 2, True, 5, c, 24)"
  by (simp add: rar5_record_head_def rar_cursor_defs rar5_spin_def)

lemma rar5_spin_file: "rar5_file_head rar5_spin 24 = Some (Some (0, 1, 30))"
  by (simp add: rar5_file_head_def rar_cursor_defs rar5_spin_def)

lemma mem_read_inside: "p + n \<le> length buf \<Longrightarrow> mem_read cenv buf p n = take n (drop p buf)"
  by (auto simp: mem_read_def list_eq_iff_nth_eq)

lemma rar5_spin_scan: "rar5_extra_scan cenv rar5_spin 35 5 31 = None"
proof -
  have "\<not> (buf = rar5_spin \<and> lim = 35 \<and> extra_sz = 5 \<and> ex = 31)"
    if r: "rar5_extra_scan cenv buf lim extra_sz ex = Some y" for cenv buf lim extra_sz ex y
  proof (rule rar5_extra_scan.raw_induct
      [where P = "\<lambda>cenv buf lim extra_sz ex y. \<not> (buf = rar5_spin \<and> lim = 35 \<and> extra_sz = 5 \<and> ex = 31)",
        OF _ r])
    fix scan :: "charset_env \<Rightarrow> byte list \<Rightarrow> nat \<Rightarrow> nat \<Rightarrow> nat \<Rightarrow> extra_scan option"
    fix cenv buf lim extra_sz ex y
    assume ih: "\<And>cenv buf lim extra_sz ex y. scan cenv buf lim extra_sz ex = Some y
        \<Longrightarrow> \<not> (buf = rar5_spin \<and> lim = 35 \<and> extra_sz = 5 \<and> ex = 31)"
    assume body: "(if ex < lim then
        (case rspamd_archive_rar_read_vint (mem_read cenv buf ex extra_sz) of
           None \<Rightarrow> Some ExtraBadVint
         | Some (cur_sz, r) \<Rightarrow>
            (case rspamd_archive_rar_read_vint (mem_read cenv buf (ex + r) (extra_sz - r)) of
               None \<Rightarrow> Some ExtraBadVint
             | Some (sec_type, r') \<Rightarrow>
                 if sec_type = 0x01 then Some ExtraEncrypted
                 else scan cenv buf lim extra_sz (ex + unat cur_sz)))
      else Some ExtraDone) = Some y"
    show "\<not> (buf = rar5_spin \<and> lim = 35 \<and> extra_sz = 5 \<and> ex = 31)"
    proof
      assume eq: "buf = rar5_spin \<and> lim = 35 \<and> extra_sz = 5 \<and> ex = 31"
      then have e: "buf = rar5_spin" "lim = 35" "extra_sz = 5" "ex = 31" by simp_all
      have m: "mem_read cenv rar5_spin 31 5 = take 5 (drop 31 rar5_spin)"
        "mem_read cenv rar5_spin 32 4 = take 4 (drop 32 rar5_spin)"
        by (simp_all add: mem_read_inside rar5_spin_length)
      have v: "rspamd_archive_rar_read_vint (take 5 (drop 31 rar5_spin)) = Some (0, 1)"
        "rspamd_archive_rar_read_vint (take 4 (drop 32 rar5_spin)) = Some (2, 1)"
        by (simp_all add: rar5_spin_def rspamd_archive_rar_read_vint_def)
      from body have "scan cenv rar5_spin 35 5 31 = Some y"
        unfolding e by (simp add: m v)
      from ih [OF this] show False by simp
    qed
  qed
  note never = this
  show ?thesis
  proof (cases "rar5_extra_scan cenv rar5_spin 35 5 31")
    case None
    then show ?thesis .
  next
    case (Some y)
    from never [OF this] show ?thesis by simp
  qed
qed

lemma rar5_spin_entry: "rar5_file_entry cenv rar5_spin 30 1 0 c True 5 arch = None"
  using try_utf_fname [of cenv]
  by (simp add: rar5_file_entry_def Let_def rar5_spin_length rar5_spin_scan)

lemma rar5_spin_step: "rar5_step cenv rar5_spin 16 st = None"
  by (simp add: rar5_step_def rar5_spin_head rar5_spin_file rar5_spin_entry)

text \<open>
  C10. Every turn of the two record loops that comes back moves the cursor forward
  (\<open>rar4_step_advances\<close>, \<open>rar5_step_advances\<close>), and the version 4 walk returns on
  every input. The version 5 walk does not: the scan of a file record's extra area adds
  the size of each extra record to its cursor without a test for zero. On the input
  \<open>rar5_spin\<close> that scan stays at offset 31 for ever and the reader never returns.
\<close>

theorem C10_rar5_extra_scan_never_returns:
  "rspamd_archive_process_rar cenv (part_of rar5_spin None) = None"
proof -
  have "rar5_walk cenv rar5_spin 16 st = None" for st
    by (subst rar5_walk.simps) (simp add: rar5_spin_length rar5_spin_step)
  moreover have "take 8 rar5_spin = rar_v5_magic"
    by (simp add: rar5_spin_def rar_v5_magic_def)
  ultimately show ?thesis
    by (simp add: rspamd_archive_process_rar_def rar_parse_def part_of_def Let_def rar5_spin_length
        gsize_diff_def rar5_spin_main)
qed

section \<open>Properties of the 7-Zip reader\<close>

lemma sz_walk_stops: "fst (sz_walk env buf p arch) \<noteq> Section q"
proof (induction env buf p arch rule: sz_walk.induct)
  case (1 env buf p arch)
  show ?case
    using "1.IH"
    by (subst sz_walk.simps) (auto split: prod.splits sz_section.splits)
qed


lemma sz_names_numeral:
  "sz_names env buf (numeral k) p fs =
     (case sz_find_terminator buf p of
        None \<Rightarrow> (Some (True, p), fs)
      | Some fend \<Rightarrow>
          if fend - p = 0 then (Some (True, p), fs)
          else
            (case rspamd_7zip_ucs2_to_utf8 env (take (fend - p) (drop p buf)) of
               None \<Rightarrow> (None, fs)
             | Some None \<Rightarrow> sz_names env buf (pred_numeral k) (fend + 2) fs
             | Some (Some res) \<Rightarrow>
                 sz_names env buf (pred_numeral k) (fend + 2) (fs @ [new_file\<lparr>fname := Some res\<rparr>])))"
  using sz_names.simps(2) [of env buf "pred_numeral k" p fs]
  by (simp only: numeral_eq_Suc)

lemma ucs2_a: "rspamd_7zip_ucs2_to_utf8 toy_sz_env [0x61, 0x00] = Some (Some [0x61])"
  by (simp add: rspamd_7zip_ucs2_to_utf8_def toy_sz_env_def rd_le_def sz_put_def U8_APPEND_def
      word_sless_alt)

lemma ucs2_b: "rspamd_7zip_ucs2_to_utf8 toy_sz_env [0x62, 0x00] = Some (Some [0x62])"
  by (simp add: rspamd_7zip_ucs2_to_utf8_def toy_sz_env_def rd_le_def sz_put_def U8_APPEND_def
      word_sless_alt)

lemma cut_length: "length sz_second_name_cut = 44"
  by (simp add: sz_second_name_cut_def sz_head_def)

lemma cut_first: "sz_first_section sz_second_name_cut = Some 32"
  by code_simp

lemma cut_terminators:
  "sz_find_terminator sz_second_name_cut 38 = Some 40"
  "sz_find_terminator sz_second_name_cut 42 = None"
  by code_simp+

lemma cut_names:
  "sz_names toy_sz_env sz_second_name_cut 2 38 fs = (Some (True, 42), fs @ [sz_file [0x61]])"
proof -
  have "take 2 (drop 38 sz_second_name_cut) = [0x61, 0x00]"
    by (simp add: sz_second_name_cut_def sz_head_def)
  then show ?thesis
    by (simp add: sz_names_numeral cut_terminators ucs2_a sz_file_def)
qed

lemma cut_vints:
  "SZ_READ_VINT toy_sz_env sz_second_name_cut 34 = Some (2, 35)"
  "SZ_READ_VINT toy_sz_env sz_second_name_cut 36 = Some (5, 37)"
  by code_simp+

lemma cut_files:
  "rspamd_7zip_read_files_info toy_sz_env sz_second_name_cut 34 fs
     = (Section 42, fs @ [sz_file [0x61]])"
proof -
  have b: "sz_second_name_cut ! 35 = kName" "sz_second_name_cut ! 37 = 0"
    by (simp_all add: sz_second_name_cut_def sz_head_def)
  show ?thesis
    unfolding rspamd_7zip_read_files_info_def
    by (simp add: cut_vints sz_files_info_loop.simps [of _ _ _ 35] cut_length b
        sz_skipped_property_def SZ_SKIP_BYTES_def cut_names)
qed

lemma cut_sections:
  "rspamd_7zip_read_next_section toy_sz_env sz_second_name_cut 32 arch = (Section 33, arch)"
  "rspamd_7zip_read_next_section toy_sz_env sz_second_name_cut 33 arch
     = (Section 42, arch\<lparr>files := files arch @ [sz_file [0x61]]\<rparr>)"
  "rspamd_7zip_read_next_section toy_sz_env sz_second_name_cut 42 arch = (Invalid, arch)"
proof -
  have b: "sz_second_name_cut ! 32 = kHeader" "sz_second_name_cut ! 33 = kFilesInfo"
    "sz_second_name_cut ! 42 = 0x62"
    by (simp_all add: sz_second_name_cut_def sz_head_def)
  show "rspamd_7zip_read_next_section toy_sz_env sz_second_name_cut 32 arch = (Section 33, arch)"
    by (simp add: rspamd_7zip_read_next_section_def SZ_SKIP_BYTES_def cut_length b)
  show "rspamd_7zip_read_next_section toy_sz_env sz_second_name_cut 33 arch
     = (Section 42, arch\<lparr>files := files arch @ [sz_file [0x61]]\<rparr>)"
    by (simp add: rspamd_7zip_read_next_section_def SZ_SKIP_BYTES_def cut_length b cut_files)
  show "rspamd_7zip_read_next_section toy_sz_env sz_second_name_cut 42 arch = (Invalid, arch)"
    by (simp add: rspamd_7zip_read_next_section_def SZ_SKIP_BYTES_def cut_length b)
qed

lemma sz_walk_cut:
  "sz_walk toy_sz_env sz_second_name_cut 32 arch
     = (Invalid, arch\<lparr>files := files arch @ [sz_file [0x61]]\<rparr>)"
  by (simp add: sz_walk.simps [of _ _ 32] sz_walk.simps [of _ _ 33] sz_walk.simps [of _ _ 42]
      cut_sections)

lemma two_length: "length sz_two_names = 48"
  by (simp add: sz_two_names_def sz_head_def)

lemma two_first: "sz_first_section sz_two_names = Some 32"
  by code_simp

lemma two_terminators:
  "sz_find_terminator sz_two_names 38 = Some 40"
  "sz_find_terminator sz_two_names 42 = Some 44"
  by code_simp+

lemma two_names:
  "sz_names toy_sz_env sz_two_names 2 38 fs
     = (Some (False, 46), fs @ [sz_file [0x61], sz_file [0x62]])"
proof -
  have "take 2 (drop 38 sz_two_names) = [0x61, 0x00]"
    "take 2 (drop 42 sz_two_names) = [0x62, 0x00]"
    by (simp_all add: sz_two_names_def sz_head_def)
  then show ?thesis
    by (simp add: sz_names_numeral two_terminators ucs2_a ucs2_b sz_file_def)
qed

lemma two_vints:
  "SZ_READ_VINT toy_sz_env sz_two_names 34 = Some (2, 35)"
  "SZ_READ_VINT toy_sz_env sz_two_names 36 = Some (5, 37)"
  by code_simp+

lemma two_files:
  "rspamd_7zip_read_files_info toy_sz_env sz_two_names 34 fs
     = (Section 47, fs @ [sz_file [0x61], sz_file [0x62]])"
proof -
  have b: "sz_two_names ! 35 = kName" "sz_two_names ! 37 = 0" "sz_two_names ! 46 = kEnd"
    by (simp_all add: sz_two_names_def sz_head_def)
  show ?thesis
    unfolding rspamd_7zip_read_files_info_def
    by (simp add: two_vints sz_files_info_loop.simps [of _ _ _ 35]
        sz_files_info_loop.simps [of _ _ _ 46] two_length b
        sz_skipped_property_def SZ_SKIP_BYTES_def two_names)
qed

lemma two_sections:
  "rspamd_7zip_read_next_section toy_sz_env sz_two_names 32 arch = (Section 33, arch)"
  "rspamd_7zip_read_next_section toy_sz_env sz_two_names 33 arch
     = (Section 47, arch\<lparr>files := files arch @ [sz_file [0x61], sz_file [0x62]]\<rparr>)"
  "rspamd_7zip_read_next_section toy_sz_env sz_two_names 47 arch = (Final, arch)"
proof -
  have b: "sz_two_names ! 32 = kHeader" "sz_two_names ! 33 = kFilesInfo"
    "sz_two_names ! 47 = kEnd"
    by (simp_all add: sz_two_names_def sz_head_def)
  show "rspamd_7zip_read_next_section toy_sz_env sz_two_names 32 arch = (Section 33, arch)"
    by (simp add: rspamd_7zip_read_next_section_def SZ_SKIP_BYTES_def two_length b)
  show "rspamd_7zip_read_next_section toy_sz_env sz_two_names 33 arch
     = (Section 47, arch\<lparr>files := files arch @ [sz_file [0x61], sz_file [0x62]]\<rparr>)"
    by (simp add: rspamd_7zip_read_next_section_def SZ_SKIP_BYTES_def two_length b two_files)
  show "rspamd_7zip_read_next_section toy_sz_env sz_two_names 47 arch = (Final, arch)"
    by (simp add: rspamd_7zip_read_next_section_def SZ_SKIP_BYTES_def two_length b)
qed

lemma sz_walk_two:
  "sz_walk toy_sz_env sz_two_names 32 arch
     = (Final, arch\<lparr>files := files arch @ [sz_file [0x61], sz_file [0x62]]\<rparr>)"
  by (simp add: sz_walk.simps [of _ _ 32] sz_walk.simps [of _ _ 33] sz_walk.simps [of _ _ 47]
      two_sections)

lemma process_7zip_cases:
  "(sz_first_section (parsed_data part) = None
      \<and> rspamd_archive_process_7zip env part = Some part)
   \<or> (\<exists>p a. sz_first_section (parsed_data part) = Some p
          \<and> sz_walk env (parsed_data part) p (new_archive RSPAMD_ARCHIVE_7ZIP None) = (Crash, a)
          \<and> rspamd_archive_process_7zip env part = None)
   \<or> (\<exists>p r a. sz_first_section (parsed_data part) = Some p
          \<and> sz_walk env (parsed_data part) p (new_archive RSPAMD_ARCHIVE_7ZIP None) = (r, a)
          \<and> (r = Final \<or> r = Invalid)
          \<and> rspamd_archive_process_7zip env part
              = Some (attach part (a\<lparr>archive_name := cd_filename part\<rparr>)))"
proof (cases "sz_first_section (parsed_data part)")
  case None
  then show ?thesis by (simp add: rspamd_archive_process_7zip_def)
next
  case (Some p)
  obtain r a where w: "sz_walk env (parsed_data part) p (new_archive RSPAMD_ARCHIVE_7ZIP None) = (r, a)"
    by (cases "sz_walk env (parsed_data part) p (new_archive RSPAMD_ARCHIVE_7ZIP None)")
  from sz_walk_stops [of env "parsed_data part" p "new_archive RSPAMD_ARCHIVE_7ZIP None"] w
  have "r = Final \<or> r = Invalid \<or> r = Crash"
    by (cases r) auto
  with Some w show ?thesis
    by (auto simp: rspamd_archive_process_7zip_def)
qed

text \<open>
  C2. The 7-Zip reader leaves its loop over the sections when
  \<open>rspamd_7zip_read_next_section\<close> returns \<open>NULL\<close>, which it does at \<open>kEnd\<close> and at every
  malformed section alike, and the statements after the loop attach the archive in
  both cases. In the input \<open>sz_second_name_cut\<close> the start header is accepted and the
  \<open>kFilesInfo\<close> section announces two files; the first name, \<open>a\<close>, is read, the second
  has no end, and the byte found in its place is no section. The walk ends at a
  malformed section, and the part leaves the reader as an archive with the one file
  \<open>a\<close>.
\<close>

theorem C2_7zip_partial_archive_attached:
  "sz_first_section sz_second_name_cut = Some 32
   \<and> sz_walk toy_sz_env sz_second_name_cut 32 (new_archive RSPAMD_ARCHIVE_7ZIP None)
       = (Invalid, (new_archive RSPAMD_ARCHIVE_7ZIP None)\<lparr>files := [sz_file [0x61]]\<rparr>)
   \<and> rspamd_archive_process_7zip toy_sz_env (part_of sz_second_name_cut None)
       = Some (attach (part_of sz_second_name_cut None)
                 ((new_archive RSPAMD_ARCHIVE_7ZIP None)\<lparr>files := [sz_file [0x61]]\<rparr>))
   \<and> rspamd_archive_process_7zip toy_sz_env (part_of sz_second_name_cut None)
       \<noteq> Some (part_of sz_second_name_cut None)"
proof -
  have w: "sz_walk toy_sz_env sz_second_name_cut 32 (new_archive RSPAMD_ARCHIVE_7ZIP None)
       = (Invalid, (new_archive RSPAMD_ARCHIVE_7ZIP None)\<lparr>files := [sz_file [0x61]]\<rparr>)"
    by (simp add: sz_walk_cut new_archive_def)
  have p: "rspamd_archive_process_7zip toy_sz_env (part_of sz_second_name_cut None)
       = Some (attach (part_of sz_second_name_cut None)
                 ((new_archive RSPAMD_ARCHIVE_7ZIP None)\<lparr>files := [sz_file [0x61]]\<rparr>))"
    by (simp add: rspamd_archive_process_7zip_def part_of_def cut_first sz_walk_cut
        new_archive_def)
  have n: "attach (part_of sz_second_name_cut None)
                 ((new_archive RSPAMD_ARCHIVE_7ZIP None)\<lparr>files := [sz_file [0x61]]\<rparr>)
       \<noteq> part_of sz_second_name_cut None"
    by (simp add: attach_def part_of_def)
  from cut_first w p n show ?thesis by simp
qed

end
